theory Spec2Isabelle
  imports Complex_Main
begin

section \<open>JavaScript values\<close>

text \<open>
  The program is plain JavaScript (\<^verbatim>\<open>src/app.js\<close>). A Number is a real, \<open>NaN\<close> or one of
  the two infinities; the two zeros are one value. The operations of this section are
  the exact ones: a finite result is the mathematical result. The section on binary64
  arithmetic adds the rounding, overflow and underflow of IEEE 754, and the functions
  named \<open>\<dots>64\<close> are the functions of the program with every arithmetic result rounded;
  the statements on the total, on the filter and on the ranking, where the rounding
  decides the outcome, are made of these. Property values are the primitive values that
  a form field, a checkbox or a stored run can hold; a missing property reads as
  \<open>JUndefined\<close>. Strings are lists of 8-bit code units (the program's own strings stay
  within Latin-1).
\<close>

datatype number = Fin real | NaN | PInf | NInf

datatype jsval = JUndefined | JNull | JBool bool | JNum number | JStr string

subsection \<open>Number arithmetic\<close>

fun nneg :: "number \<Rightarrow> number" where
  "nneg (Fin a) = Fin (- a)"
| "nneg NaN = NaN"
| "nneg PInf = NInf"
| "nneg NInf = PInf"

fun nadd :: "number \<Rightarrow> number \<Rightarrow> number" where
  "nadd (Fin a) (Fin b) = Fin (a + b)"
| "nadd NaN _ = NaN"
| "nadd _ NaN = NaN"
| "nadd PInf NInf = NaN"
| "nadd NInf PInf = NaN"
| "nadd PInf _ = PInf"
| "nadd _ PInf = PInf"
| "nadd NInf _ = NInf"
| "nadd _ NInf = NInf"

definition nsub :: "number \<Rightarrow> number \<Rightarrow> number" where
  "nsub a b = nadd a (nneg b)"

text \<open>The sign of a Number: \<open>None\<close> for \<open>NaN\<close>, otherwise \<open>-1\<close>, \<open>0\<close> or \<open>1\<close>.\<close>

fun nsign :: "number \<Rightarrow> int option" where
  "nsign (Fin a) = Some (if a < 0 then - 1 else if a = 0 then 0 else 1)"
| "nsign NaN = None"
| "nsign PInf = Some 1"
| "nsign NInf = Some (- 1)"

fun nmul :: "number \<Rightarrow> number \<Rightarrow> number" where
  "nmul (Fin a) (Fin b) = Fin (a * b)"
| "nmul a b =
     (case (nsign a, nsign b) of
        (Some s, Some t) \<Rightarrow>
          (if s * t = 0 then NaN else if 0 < s * t then PInf else NInf)
      | _ \<Rightarrow> NaN)"

text \<open>
  Division. A finite nonzero value divided by zero is an infinity whose sign binary64
  takes from both operands; with one zero in the model the sign is the dividend's. The
  program only ever divides by \<open>100\<close> and by the length of a non-empty array.
\<close>

fun ndiv :: "number \<Rightarrow> number \<Rightarrow> number" where
  "ndiv (Fin a) (Fin b) =
     (if b = 0 then (if a = 0 then NaN else if 0 < a then PInf else NInf)
      else Fin (a / b))"
| "ndiv NaN _ = NaN"
| "ndiv _ NaN = NaN"
| "ndiv (Fin a) _ = Fin 0"
| "ndiv PInf (Fin b) = (if 0 \<le> b then PInf else NInf)"
| "ndiv NInf (Fin b) = (if 0 \<le> b then NInf else PInf)"
| "ndiv _ _ = NaN"

fun nle :: "number \<Rightarrow> number \<Rightarrow> bool" where
  "nle (Fin a) (Fin b) = (a \<le> b)"
| "nle NaN _ = False"
| "nle _ NaN = False"
| "nle NInf _ = True"
| "nle _ PInf = True"
| "nle _ _ = False"

fun nlt :: "number \<Rightarrow> number \<Rightarrow> bool" where
  "nlt (Fin a) (Fin b) = (a < b)"
| "nlt NaN _ = False"
| "nlt _ NaN = False"
| "nlt PInf _ = False"
| "nlt _ NInf = False"
| "nlt _ _ = True"

text \<open>Strict equality \<^verbatim>\<open>===\<close> on Numbers: \<open>NaN\<close> equals nothing.\<close>

definition nstricteq :: "number \<Rightarrow> number \<Rightarrow> bool" where
  "nstricteq a b = (a \<noteq> NaN \<and> a = b)"

fun isFiniteN :: "number \<Rightarrow> bool" where
  "isFiniteN (Fin a) = True"
| "isFiniteN _ = False"

text \<open>\<^verbatim>\<open>Number.isFinite\<close> does not coerce: anything but a finite Number is \<open>False\<close>.\<close>

fun Number_isFinite :: "jsval \<Rightarrow> bool" where
  "Number_isFinite (JNum n) = isFiniteN n"
| "Number_isFinite _ = False"

text \<open>\<^verbatim>\<open>Math.round\<close> rounds to the nearest integer, a tie towards \<open>+\<infinity>\<close>.\<close>

fun Math_round :: "number \<Rightarrow> number" where
  "Math_round (Fin a) = Fin (of_int \<lfloor>a + 1 / 2\<rfloor>)"
| "Math_round n = n"

fun Math_abs :: "number \<Rightarrow> number" where
  "Math_abs (Fin a) = Fin \<bar>a\<bar>"
| "Math_abs NaN = NaN"
| "Math_abs _ = PInf"

fun min2 :: "number \<Rightarrow> number \<Rightarrow> number" where
  "min2 NaN _ = NaN"
| "min2 _ NaN = NaN"
| "min2 a b = (if nle a b then a else b)"

text \<open>\<^verbatim>\<open>Math.min(...xs)\<close>: \<open>Infinity\<close> for no argument, \<open>NaN\<close> as soon as one argument is.\<close>

definition Math_min :: "number list \<Rightarrow> number" where
  "Math_min xs = foldl min2 PInf xs"

subsection \<open>Strings to Numbers\<close>

text \<open>
  \<^verbatim>\<open>Number(s)\<close> on a string follows the StringNumericLiteral grammar of ECMAScript:
  white space is trimmed, the empty string is \<open>0\<close>, then a signed decimal literal with an
  optional fraction and exponent, \<^verbatim>\<open>Infinity\<close>, or an unsigned hexadecimal, octal or
  binary integer; anything else is \<open>NaN\<close>.
\<close>

definition isWhiteSpace :: "char \<Rightarrow> bool" where
  "isWhiteSpace c = (of_char c \<in> {9, 10, 11, 12, 13, 32, 160 :: nat})"

definition trim :: "string \<Rightarrow> string" where
  "trim s = rev (dropWhile isWhiteSpace (rev (dropWhile isWhiteSpace s)))"

definition isDigit :: "char \<Rightarrow> bool" where
  "isDigit c = (48 \<le> (of_char c :: nat) \<and> (of_char c :: nat) \<le> 57)"

definition digitVal :: "char \<Rightarrow> nat" where
  "digitVal c = of_char c - 48"

definition digitsVal :: "string \<Rightarrow> nat" where
  "digitsVal s = foldl (\<lambda>a c. 10 * a + digitVal c) 0 s"

definition hexVal :: "char \<Rightarrow> nat option" where
  "hexVal c =
     (let n = (of_char c :: nat) in
      if 48 \<le> n \<and> n \<le> 57 then Some (n - 48)
      else if 65 \<le> n \<and> n \<le> 70 then Some (n - 55)
      else if 97 \<le> n \<and> n \<le> 102 then Some (n - 87)
      else None)"

text \<open>The digits of \<open>s\<close> read in base \<open>b\<close>; \<open>None\<close> if \<open>s\<close> is empty or has another character.\<close>

definition radixVal :: "nat \<Rightarrow> string \<Rightarrow> nat option" where
  "radixVal b s =
     (if s \<noteq> [] \<and> list_all (\<lambda>c. case hexVal c of None \<Rightarrow> False | Some d \<Rightarrow> d < b) s
      then Some (foldl (\<lambda>a c. b * a + the (hexVal c)) 0 s)
      else None)"

definition NonDecimalIntegerLiteral :: "string \<Rightarrow> number option" where
  "NonDecimalIntegerLiteral s =
     (case s of
        z # p # ds \<Rightarrow>
          (if z \<noteq> CHR ''0'' then None
           else if p = CHR ''x'' \<or> p = CHR ''X'' then map_option (\<lambda>n. Fin (of_nat n)) (radixVal 16 ds)
           else if p = CHR ''o'' \<or> p = CHR ''O'' then map_option (\<lambda>n. Fin (of_nat n)) (radixVal 8 ds)
           else if p = CHR ''b'' \<or> p = CHR ''B'' then map_option (\<lambda>n. Fin (of_nat n)) (radixVal 2 ds)
           else None)
      | _ \<Rightarrow> None)"

text \<open>The exponent part after the mantissa: nothing (exponent \<open>0\<close>), or \<^verbatim>\<open>e\<close>, a sign, digits.\<close>

definition ExponentPart :: "string \<Rightarrow> int option" where
  "ExponentPart r =
     (case r of
        [] \<Rightarrow> Some 0
      | e # ds \<Rightarrow>
          (if e = CHR ''e'' \<or> e = CHR ''E'' then
             (case ds of
                [] \<Rightarrow> None
              | g # ds' \<Rightarrow>
                  (if g = CHR ''+'' \<or> g = CHR ''-'' then
                     (if ds' \<noteq> [] \<and> list_all isDigit ds'
                      then Some (if g = CHR ''-'' then - int (digitsVal ds') else int (digitsVal ds'))
                      else None)
                   else if list_all isDigit ds then Some (int (digitsVal ds))
                   else None))
           else None))"

definition pow10 :: "int \<Rightarrow> real" where
  "pow10 e = (if 0 \<le> e then 10 ^ nat e else 1 / 10 ^ nat (- e))"

definition StrUnsignedDecimalLiteral :: "string \<Rightarrow> number option" where
  "StrUnsignedDecimalLiteral s =
     (if s = ''Infinity'' then Some PInf
      else
        (let ip = takeWhile isDigit s;
             r1 = dropWhile isDigit s;
             dot = (case r1 of [] \<Rightarrow> False | c # _ \<Rightarrow> c = CHR ''.'');
             fp = (if dot then takeWhile isDigit (tl r1) else []);
             r2 = (if dot then dropWhile isDigit (tl r1) else r1)
         in if ip = [] \<and> fp = [] then None
            else
              (case ExponentPart r2 of
                 None \<Rightarrow> None
               | Some e \<Rightarrow>
                   Some (Fin ((of_nat (digitsVal ip) + of_nat (digitsVal fp) / 10 ^ length fp)
                              * pow10 e)))))"

definition StrDecimalLiteral :: "string \<Rightarrow> number option" where
  "StrDecimalLiteral s =
     (case s of
        [] \<Rightarrow> None
      | c # r \<Rightarrow>
          (if c = CHR ''+'' then StrUnsignedDecimalLiteral r
           else if c = CHR ''-'' then map_option nneg (StrUnsignedDecimalLiteral r)
           else StrUnsignedDecimalLiteral s))"

definition StringToNumber :: "string \<Rightarrow> number" where
  "StringToNumber s =
     (let t = trim s in
      if t = [] then Fin 0
      else
        (case NonDecimalIntegerLiteral t of
           Some n \<Rightarrow> n
         | None \<Rightarrow> (case StrDecimalLiteral t of Some n \<Rightarrow> n | None \<Rightarrow> NaN)))"

subsection \<open>Coercions\<close>

text \<open>\<^verbatim>\<open>Number(v)\<close>.\<close>

fun Number :: "jsval \<Rightarrow> number" where
  "Number JUndefined = NaN"
| "Number JNull = Fin 0"
| "Number (JBool b) = Fin (if b then 1 else 0)"
| "Number (JNum n) = n"
| "Number (JStr s) = StringToNumber s"

text \<open>Truthiness, as \<^verbatim>\<open>!!v\<close>, \<^verbatim>\<open>v ? a : b\<close> and \<^verbatim>\<open>v || w\<close> read it.\<close>

fun truthy :: "jsval \<Rightarrow> bool" where
  "truthy JUndefined = False"
| "truthy JNull = False"
| "truthy (JBool b) = b"
| "truthy (JNum n) = (n \<noteq> NaN \<and> n \<noteq> Fin 0)"
| "truthy (JStr s) = (s \<noteq> [])"

definition js_or :: "jsval \<Rightarrow> jsval \<Rightarrow> jsval" where
  "js_or a b = (if truthy a then a else b)"

section \<open>Helpers of the program\<close>

text \<open>\<^verbatim>\<open>function num(v) { const n = Number(v); return Number.isFinite(n) ? n : 0; }\<close>\<close>

definition num :: "jsval \<Rightarrow> number" where
  "num v = (let n = Number v in if isFiniteN n then n else Fin 0)"

text \<open>\<^verbatim>\<open>function round2(x) { return Math.round(x * 100) / 100; }\<close>\<close>

definition round2 :: "number \<Rightarrow> number" where
  "round2 x = ndiv (Math_round (nmul x (Fin 100))) (Fin 100)"

section \<open>Scoring\<close>

text \<open>
  \<^verbatim>\<open>avgOfTimes(t1, t2, t3)\<close>: the three values are coerced with \<^verbatim>\<open>Number\<close>, those that
  are finite and not negative are kept, and the result is their mean, \<open>0\<close> if none is kept.
\<close>

definition avgOfTimes :: "jsval \<Rightarrow> jsval \<Rightarrow> jsval \<Rightarrow> number" where
  "avgOfTimes t1 t2 t3 =
     (let arr = filter (\<lambda>v. isFiniteN v \<and> nle (Fin 0) v) (map Number [t1, t2, t3]) in
      if length arr = 0 then Fin 0
      else ndiv (foldl nadd (Fin 0) arr) (Fin (of_nat (length arr))))"

text \<open>
  The object \<^verbatim>\<open>computeScore\<close> reads: the practice form and a meet row's \<^verbatim>\<open>run1\<close>,
  \<^verbatim>\<open>run2\<close> both carry the two violation flags under the names
  \<^verbatim>\<open>competitionViolationPoints\<close> and \<^verbatim>\<open>constructionViolationPoints\<close>.
\<close>

record RunInput =
  vehicleDistanceCm :: jsval
  time1 :: jsval
  time2 :: jsval
  time3 :: jsval
  bucketBonus :: jsval
  failedRun :: jsval
  competitionViolationPoints :: jsval
  constructionViolationPoints :: jsval

text \<open>
  The result of \<^verbatim>\<open>computeScore\<close>; \<open>bTimeAvg\<close> is the field \<^verbatim>\<open>breakdown.timeAvg\<close>, which
  repeats \<^verbatim>\<open>timeAvg\<close>.
\<close>

record Breakdown =
  distCm :: number
  distanceScore :: number
  bTimeAvg :: number
  bucket :: number
  penalties :: number
  failed :: bool

record ScoreResult =
  total :: number
  timeAvg :: number
  breakdown :: Breakdown

definition computeScore :: "RunInput \<Rightarrow> ScoreResult" where
  "computeScore inp =
     (let base = Fin 100;
          failed = truthy (failedRun inp);
          distCm = (if failed then Fin 2500 else num (vehicleDistanceCm inp));
          timeAvg = (if failed then Fin 0 else avgOfTimes (time1 inp) (time2 inp) (time3 inp));
          distanceScore = nmul (Fin 2) distCm;
          timeScore = timeAvg;
          bucket = (if truthy (bucketBonus inp) then Fin (- 100) else Fin 0);
          cv = (if truthy (competitionViolationPoints inp) then Fin 150 else Fin 0);
          conv = (if truthy (constructionViolationPoints inp) then Fin 300 else Fin 0);
          total = nadd (nadd (nadd (nadd (nadd base distanceScore) timeScore) bucket) cv) conv
      in \<lparr> total = round2 total,
           timeAvg = round2 timeAvg,
           breakdown = \<lparr> distCm = round2 distCm,
                         distanceScore = round2 distanceScore,
                         bTimeAvg = round2 timeAvg,
                         bucket = bucket,
                         penalties = nadd cv conv,
                         failed = failed \<rparr> \<rparr>)"



text \<open>What \<open>round2\<close> computes on a finite value, and the real value of a finite Number.\<close>

definition round2dec :: "real \<Rightarrow> real" where
  "round2dec x = of_int \<lfloor>x * 100 + 1 / 2\<rfloor> / 100"

fun fval :: "number \<Rightarrow> real" where
  "fval (Fin a) = a"
| "fval _ = 0"

text \<open>
  The example input of the specification: distance \<open>300\<close>, three times of \<open>10\<close>, not
  failed, with the bucket flag and the two violation flags as given.
\<close>

definition exampleRun :: "bool \<Rightarrow> bool \<Rightarrow> bool \<Rightarrow> RunInput" where
  "exampleRun b cv conv =
     \<lparr> vehicleDistanceCm = JNum (Fin 300),
       time1 = JNum (Fin 10), time2 = JNum (Fin 10), time3 = JNum (Fin 10),
       bucketBonus = JBool b, failedRun = JBool False,
       competitionViolationPoints = JBool cv, constructionViolationPoints = JBool conv \<rparr>"

text \<open>A practice form as the browser hands it over: every time field is a string.\<close>

definition formRun :: "number \<Rightarrow> string \<Rightarrow> string \<Rightarrow> string \<Rightarrow> bool \<Rightarrow> RunInput" where
  "formRun d s1 s2 s3 f =
     \<lparr> vehicleDistanceCm = JNum d,
       time1 = JStr s1, time2 = JStr s2, time3 = JStr s3,
       bucketBonus = JBool False, failedRun = JBool f,
       competitionViolationPoints = JBool False, constructionViolationPoints = JBool False \<rparr>"

section \<open>Practice summary\<close>

subsection \<open>Numbers to strings\<close>

definition digitChar :: "nat \<Rightarrow> char" where
  "digitChar d = char_of (48 + d)"

text \<open>The decimal digits of a natural number, as \<^verbatim>\<open>String(n)\<close> prints an array length.\<close>

fun digitsOf :: "nat \<Rightarrow> string" where
  "digitsOf n = (if n < 10 then [digitChar n] else digitsOf (n div 10) @ [digitChar (n mod 10)])"

declare digitsOf.simps [simp del]

text \<open>
  Steps 9 and 10 of \<^verbatim>\<open>Number.prototype.toFixed\<close>: the digits of \<open>n\<close>, padded with zeros
  to more than \<open>f\<close> digits, with the decimal point before the last \<open>f\<close> of them.
\<close>

definition fixedDigits :: "nat \<Rightarrow> nat \<Rightarrow> string" where
  "fixedDigits n f =
     (let m = digitsOf n in
      if f = 0 then m
      else
        (let m' = (if length m \<le> f then replicate (f + 1 - length m) (CHR ''0'') @ m else m);
             k = length m'
         in take (k - f) m' @ ''.'' @ drop (k - f) m'))"

text \<open>
  \<^verbatim>\<open>String(x)\<close> for \<open>x \<ge> 10\<^sup>2\<^sup>1\<close>: the significant digits \<open>d.ddd\<close>, then \<^verbatim>\<open>e+\<close> and the
  exponent. The standard prints the shortest digits that read back as the same binary64
  value; for the exact values of this model these are the digits of the integer itself
  (a binary64 value of that size is an integer, so the model takes the integer part).
\<close>

definition expDigits :: "nat \<Rightarrow> string" where
  "expDigits n =
     (let ds = digitsOf n;
          sig = rev (dropWhile (\<lambda>c. c = CHR ''0'') (rev ds))
      in (case sig of
            [] \<Rightarrow> ds
          | d # rest \<Rightarrow> d # (if rest = [] then [] else CHR ''.'' # rest))
         @ ''e+'' @ digitsOf (length ds - 1))"

text \<open>
  \<^verbatim>\<open>x.toFixed(f)\<close>: the sign, then the integer \<open>n\<close> nearest to \<open>|x| \<times> 10\<^sup>f\<close> (the larger
  one on a tie) printed with \<open>f\<close> decimals; \<^verbatim>\<open>String(x)\<close> from \<open>10\<^sup>2\<^sup>1\<close> on and for a value
  that is not finite.
\<close>

fun toFixed :: "number \<Rightarrow> nat \<Rightarrow> string" where
  "toFixed (Fin x) f =
     (if x < 0 then ''-'' else [])
     @ (if 10 ^ 21 \<le> \<bar>x\<bar> then expDigits (nat \<lfloor>\<bar>x\<bar>\<rfloor>)
        else fixedDigits (nat \<lfloor>\<bar>x\<bar> * 10 ^ f + 1 / 2\<rfloor>) f)"
| "toFixed NaN f = ''NaN''"
| "toFixed PInf f = ''Infinity''"
| "toFixed NInf f = ''-Infinity''"

subsection \<open>Runs and their keys\<close>

text \<open>A stored run, with the fields the summary reads.\<close>

record Run =
  targetDistanceM :: jsval
  carAngleDeg :: jsval
  dialTurns :: jsval
  winds :: jsval
  score :: jsval

text \<open>\<^verbatim>\<open>function approxEq(a,b,t) { return Math.abs(a-b) <= t; }\<close>\<close>

definition approxEq :: "number \<Rightarrow> number \<Rightarrow> number \<Rightarrow> bool" where
  "approxEq a b t = nle (Math_abs (nsub a b)) t"

definition blank :: string where
  "blank = ''(blank)''"

definition trackKey :: "jsval \<Rightarrow> string" where
  "trackKey m =
     (let mm = Number m in
      if \<not> isFiniteN mm \<or> nstricteq mm (Fin 0) then blank
      else toFixed mm 2)"

definition setupKey :: "Run \<Rightarrow> string" where
  "setupKey r =
     (let a = toFixed (Number (js_or (carAngleDeg r) (JNum (Fin 0)))) 1;
          t = toFixed (Number (js_or (dialTurns r) (JNum (Fin 0)))) 2;
          w = toFixed (Number (js_or (winds r) (JNum (Fin 0)))) 0
      in a @ [CHR 0xB0] @ '' | '' @ t @ '' turns | '' @ w @ '' winds'')"

subsection \<open>The filter\<close>

text \<open>
  Lines 496 to 506: \<open>filterTrackM\<close> and \<open>filterToleranceM\<close> are the texts of the two
  filter fields, \<open>runs\<close> the runs of the current user.
\<close>

definition defaultTolerance :: number where
  "defaultTolerance = Fin (5 / 1000)"

definition filterRuns :: "string \<Rightarrow> string \<Rightarrow> Run list \<Rightarrow> Run list" where
  "filterRuns filterTrackM filterToleranceM runs =
     (let targetStr = trim filterTrackM;
          tolStr = trim filterToleranceM;
          tol = (if tolStr \<noteq> [] then Some (num (JStr tolStr)) else None)
      in if targetStr \<noteq> [] then
           (let t = num (JStr targetStr) in
            case tol of
              Some tv \<Rightarrow>
                (if nlt (Fin 0) tv
                 then filter (\<lambda>r. Number_isFinite (targetDistanceM r)
                                  \<and> approxEq (num (targetDistanceM r)) t tv) runs
                 else filter (\<lambda>r. Number_isFinite (targetDistanceM r)
                                  \<and> approxEq (num (targetDistanceM r)) t defaultTolerance) runs)
            | None \<Rightarrow>
                filter (\<lambda>r. Number_isFinite (targetDistanceM r)
                             \<and> approxEq (num (targetDistanceM r)) t defaultTolerance) runs)
         else runs)"

subsection \<open>Grouping and sorting\<close>

text \<open>
  A \<^verbatim>\<open>Map\<close> from keys to arrays of runs is a list of entries in insertion order.
  \<open>groupPush\<close> is the body of the grouping loops (lines 516 to 520 and 538 to 542).
\<close>

fun groupPush :: "string \<Rightarrow> Run \<Rightarrow> (string \<times> Run list) list \<Rightarrow> (string \<times> Run list) list" where
  "groupPush k r [] = [(k, [r])]"
| "groupPush k r ((k', rs) # g) =
     (if k = k' then (k', rs @ [r]) # g else (k', rs) # groupPush k r g)"

definition groupBy :: "(Run \<Rightarrow> string) \<Rightarrow> Run list \<Rightarrow> (string \<times> Run list) list" where
  "groupBy key runs = foldl (\<lambda>g r. groupPush (key r) r g) [] runs"

text \<open>
  \<^verbatim>\<open>Array.prototype.sort\<close> with a comparator: a stable sort, here by insertion. \<open>x\<close> goes
  behind \<open>y\<close> when the comparator is positive on \<open>(x, y)\<close>.
\<close>

fun insertBy :: "('a \<Rightarrow> 'a \<Rightarrow> number) \<Rightarrow> 'a \<Rightarrow> 'a list \<Rightarrow> 'a list" where
  "insertBy cmp x [] = [x]"
| "insertBy cmp x (y # ys) =
     (if nlt (Fin 0) (cmp x y) then y # insertBy cmp x ys else x # y # ys)"

definition Array_sort :: "('a \<Rightarrow> 'a \<Rightarrow> number) \<Rightarrow> 'a list \<Rightarrow> 'a list" where
  "Array_sort cmp xs = foldr (insertBy cmp) xs []"

text \<open>The comparator of lines 522 to 526.\<close>

definition cmpTrack :: "string \<Rightarrow> string \<Rightarrow> number" where
  "cmpTrack a b =
     (if a = blank then Fin 1
      else if b = blank then Fin (- 1)
      else nsub (Number (JStr a)) (Number (JStr b)))"

subsection \<open>Statistics and ranking\<close>

text \<open>\<^verbatim>\<open>rs.map(x => Number(x.score)).filter(Number.isFinite)\<close>\<close>

definition finiteScores :: "Run list \<Rightarrow> number list" where
  "finiteScores rs = filter isFiniteN (map (\<lambda>x. Number (score x)) rs)"

text \<open>\<^verbatim>\<open>ss.reduce((p,c)=>p+c,0)/ss.length\<close>\<close>

definition mean :: "number list \<Rightarrow> number" where
  "mean ss = ndiv (foldl nadd (Fin 0) ss) (Fin (of_nat (length ss)))"

record Ranking =
  bestSetupAvg :: string
  bestAvgVal :: number
  bestSetupSingle :: string
  bestSingleVal :: number

definition rankInit :: Ranking where
  "rankInit = \<lparr> bestSetupAvg = [], bestAvgVal = PInf, bestSetupSingle = [], bestSingleVal = PInf \<rparr>"

text \<open>The body of the loop over the setups of one track group (lines 547 to 561).\<close>

definition rankStep :: "Ranking \<Rightarrow> string \<times> Run list \<Rightarrow> Ranking" where
  "rankStep st e =
     (case e of (sk, sRuns) \<Rightarrow>
        (let ss = finiteScores sRuns in
         if length ss = 0 then st
         else
           (let sAvg = mean ss;
                sBest = Math_min ss;
                st1 = (if nlt sAvg (bestAvgVal st)
                       then st \<lparr> bestAvgVal := sAvg,
                                 bestSetupAvg := sk @ '' (avg '' @ toFixed (round2 sAvg) 2
                                                 @ ''; n='' @ digitsOf (length ss) @ '')'' \<rparr>
                       else st)
            in if nlt sBest (bestSingleVal st1)
               then st1 \<lparr> bestSingleVal := sBest,
                          bestSetupSingle := sk @ '' (best '' @ toFixed (round2 sBest) 2 @ '')'' \<rparr>
               else st1)))"

definition rankSetups :: "(string \<times> Run list) list \<Rightarrow> Ranking" where
  "rankSetups bySetup = foldl rankStep rankInit bySetup"

record SummaryRow =
  trackGroupM :: string
  runsCount :: nat
  avgScore :: jsval
  bestScore :: jsval
  bestSetupByAvg :: string
  bestSetupBySingle :: string

text \<open>One pass of the loop over the track keys (lines 530 to 587), for the runs \<open>rs\<close> of key \<open>k\<close>.\<close>

definition summaryRow :: "string \<Rightarrow> Run list \<Rightarrow> SummaryRow" where
  "summaryRow k rs =
     (let scores = finiteScores rs;
          n = length scores;
          avg = (if n \<noteq> 0 then mean scores else NaN);
          best = (if n \<noteq> 0 then Math_min scores else NaN);
          bySetup = groupBy setupKey rs;
          st = rankSetups bySetup
      in \<lparr> trackGroupM = k,
           runsCount = n,
           avgScore = (if isFiniteN avg then JNum (round2 avg) else JStr []),
           bestScore = (if isFiniteN best then JNum (round2 best) else JStr []),
           bestSetupByAvg = bestSetupAvg st,
           bestSetupBySingle = bestSetupSingle st \<rparr>)"

text \<open>
  \<^verbatim>\<open>byTrack.get(k)\<close> is \<^verbatim>\<open>undefined\<close> for a key the map does not hold, and the next line
  (\<^verbatim>\<open>rs.map\<close>) then throws a TypeError: the one place of the function where a run list
  of any content could make it throw.
\<close>

datatype error = TypeError

fun summaryRows :: "(string \<times> Run list) list \<Rightarrow> string list \<Rightarrow> error + SummaryRow list" where
  "summaryRows byTrack [] = Inr []"
| "summaryRows byTrack (k # ks) =
     (case map_of byTrack k of
        None \<Rightarrow> Inl TypeError
      | Some rs \<Rightarrow>
          (case summaryRows byTrack ks of
             Inl e \<Rightarrow> Inl e
           | Inr rows \<Rightarrow> Inr (summaryRow k rs # rows)))"

text \<open>
  What \<^verbatim>\<open>renderPracticeSummary\<close> leaves behind: the message shown and
  \<^verbatim>\<open>window.__practiceSummary\<close> (the table body holds the same rows as text).
\<close>

record PracticeOut =
  practiceMsg :: string
  practiceSummary :: "SummaryRow list"

definition noMatchMsg :: string where
  "noMatchMsg = ''No runs match this filter.''"

definition renderPracticeSummary :: "string \<Rightarrow> string \<Rightarrow> Run list \<Rightarrow> error + PracticeOut" where
  "renderPracticeSummary filterTrackM filterToleranceM userRuns =
     (let runs = filterRuns filterTrackM filterToleranceM userRuns in
      if length runs = 0 then Inr \<lparr> practiceMsg = noMatchMsg, practiceSummary = [] \<rparr>
      else
        (let byTrack = groupBy (\<lambda>r. trackKey (targetDistanceM r)) runs;
             keys = Array_sort cmpTrack (map fst byTrack)
         in case summaryRows byTrack keys of
              Inl e \<Rightarrow> Inl e
            | Inr summary \<Rightarrow>
                Inr \<lparr> practiceMsg = ''Showing '' @ digitsOf (length runs) @ '' run(s).'',
                      practiceSummary = summary \<rparr>))"

section \<open>Meet\<close>







section \<open>Notions used in the statements\<close>

text \<open>
  A run as \<^verbatim>\<open>saveRun\<close> stores it: target distance, car angle, dial turns, winds and score
  are Numbers.
\<close>

definition savedRun :: "real \<Rightarrow> real \<Rightarrow> real \<Rightarrow> real \<Rightarrow> real \<Rightarrow> Run" where
  "savedRun d a t w s =
     \<lparr> targetDistanceM = JNum (Fin d), carAngleDeg = JNum (Fin a), dialTurns = JNum (Fin t),
       winds = JNum (Fin w), score = JNum (Fin s) \<rparr>"

text \<open>The characters a printed finite Number is made of.\<close>

definition numChar :: "char \<Rightarrow> bool" where
  "numChar c = (isDigit c \<or> c = CHR ''.'' \<or> c = CHR ''-'' \<or> c = CHR ''e'' \<or> c = CHR ''+'')"

text \<open>
  What \<^verbatim>\<open>toFixed(f)\<close> keeps of a finite value below \<open>10\<^sup>2\<^sup>1\<close>: whether it is negative, and
  the integer nearest to \<open>|x| \<times> 10\<^sup>f\<close>.
\<close>

definition fixedRound :: "nat \<Rightarrow> real \<Rightarrow> bool \<times> nat" where
  "fixedRound f x = (x < 0, nat \<lfloor>\<bar>x\<bar> * 10 ^ f + 1 / 2\<rfloor>)"

text \<open>
  The order of the summary rows: the sentinel key after every other key, the other keys
  by the Number they read as.
\<close>

definition keyNumber :: "string \<Rightarrow> real" where
  "keyNumber k = fval (Number (JStr k))"

definition trackOrder :: "string \<Rightarrow> string \<Rightarrow> bool" where
  "trackOrder a b = (b = blank \<or> (a \<noteq> blank \<and> keyNumber a \<le> keyNumber b))"

text \<open>
  Five saved runs with target distances \<open>10\<close>, none, \<open>9\<close>, \<open>5.001\<close> and \<open>4.999\<close>, and two
  setups (car angles \<open>12\<close> and \<open>13\<close>).
\<close>

definition trackExample :: "Run list" where
  "trackExample =
     [savedRun 10 12 3 20 700, savedRun 0 12 3 20 650, savedRun 9 13 3 20 720,
      savedRun (5001 / 1000) 12 3 20 600, savedRun (4999 / 1000) 13 3 20 620]"

subsection \<open>Setups\<close>

text \<open>
  Two setups of one track group: the first with scores \<open>600\<close> and \<open>800\<close> (mean \<open>700\<close>),
  the second with \<open>620\<close> and \<open>680\<close> (mean \<open>650\<close>); and two setups that tie with mean
  \<open>700\<close> and best score \<open>600\<close>.
\<close>

definition rankExample :: "Run list" where
  "rankExample =
     [savedRun 5 12 3 20 600, savedRun 5 13 3 20 620, savedRun 5 12 3 20 800,
      savedRun 5 13 3 20 680]"

definition tieExample :: "Run list" where
  "tieExample =
     [savedRun 5 12 3 20 600, savedRun 5 13 3 20 800, savedRun 5 12 3 20 800,
      savedRun 5 13 3 20 600]"

text \<open>The three Numbers a setup key is printed from (\<^verbatim>\<open>Number(r.carAngleDeg || 0)\<close> and so on).\<close>

definition setupAngle :: "Run \<Rightarrow> number" where
  "setupAngle r = Number (js_or (carAngleDeg r) (JNum (Fin 0)))"

definition setupTurns :: "Run \<Rightarrow> number" where
  "setupTurns r = Number (js_or (dialTurns r) (JNum (Fin 0)))"

definition setupWinds :: "Run \<Rightarrow> number" where
  "setupWinds r = Number (js_or (winds r) (JNum (Fin 0)))"

section \<open>Binary64 arithmetic\<close>

text \<open>
  JavaScript computes in IEEE 754 binary64: every arithmetic result, and every Number read
  from text, is the exact result rounded to the nearest representable value, a tie going
  to the even significand, and a result of magnitude \<open>2\<^sup>1\<^sup>0\<^sup>2\<^sup>4\<close> or more becoming an infinity.
  \<open>rnd64\<close> is this rounding: the value is divided by the unit in its last place (\<open>2\<close> to
  the power of its binary exponent, at least \<open>-1022\<close>, minus \<open>52\<close>), the quotient is rounded
  to an integer, and the integer is multiplied by the unit again. The definitions above
  compute with exact values; the definitions of this section and the ones named \<open>\<dots>64\<close>
  after it are the same functions of the program with every result rounded.
\<close>

text \<open>How often \<open>x\<close> is halved before it is below \<open>2\<close>, and doubled before it reaches \<open>1\<close>.\<close>

function halvings :: "real \<Rightarrow> nat" where
  "halvings x = (if x < 2 then 0 else Suc (halvings (x / 2)))"
  by pat_completeness auto
termination
proof (relation "measure (\<lambda>x. nat \<lfloor>x\<rfloor>)")
  show "wf (measure (\<lambda>x::real. nat \<lfloor>x\<rfloor>))" by simp
next
  fix x :: real
  assume "\<not> x < 2"
  then have "\<lfloor>x / 2\<rfloor> < \<lfloor>x\<rfloor>" and "0 < \<lfloor>x\<rfloor>" by linarith+
  then show "(x / 2, x) \<in> measure (\<lambda>x. nat \<lfloor>x\<rfloor>)" by simp
qed

function doublings :: "real \<Rightarrow> nat" where
  "doublings x = (if 1 \<le> x \<or> x \<le> 0 then 0 else Suc (doublings (2 * x)))"
  by pat_completeness auto
termination
proof (relation "measure (\<lambda>x. nat \<lceil>1 / x\<rceil>)")
  show "wf (measure (\<lambda>x::real. nat \<lceil>1 / x\<rceil>))" by simp
next
  fix x :: real
  assume "\<not> (1 \<le> x \<or> x \<le> 0)"
  then have x: "0 < x" "x < 1" by simp_all
  define y where "y = 1 / x"
  define c where "c = \<lceil>y\<rceil>"
  have y: "1 < y" using x by (simp add: y_def)
  then have c: "2 \<le> c" unfolding c_def by linarith
  then have c': "(2::real) \<le> of_int c" by simp
  have yc: "y \<le> of_int c" unfolding c_def by (rule le_of_int_ceiling)
  from yc c' have "y / 2 \<le> of_int c - 1" by linarith
  then have "y / 2 \<le> of_int (c - 1)" by simp
  then have le: "\<lceil>y / 2\<rceil> \<le> c - 1" by (rule ceiling_le)
  have "1 / (2 * x) = y / 2" by (simp add: y_def)
  then have a: "\<lceil>1 / (2 * x)\<rceil> = \<lceil>y / 2\<rceil>" by (simp only:)
  have b: "\<lceil>1 / x\<rceil> = c" by (simp only: c_def y_def)
  from le c have "\<lceil>1 / (2 * x)\<rceil> < \<lceil>1 / x\<rceil>" and "0 < \<lceil>1 / x\<rceil>"
    unfolding a b by linarith+
  then show "(2 * x, x) \<in> measure (\<lambda>x. nat \<lceil>1 / x\<rceil>)" by simp
qed

declare halvings.simps [simp del] doublings.simps [simp del]

text \<open>The binary exponent of \<open>x \<noteq> 0\<close>: the \<open>e\<close> with \<open>2\<^sup>e \<le> |x| < 2\<^sup>e\<^sup>+\<^sup>1\<close>.\<close>

definition bexp :: "real \<Rightarrow> int" where
  "bexp x = (if 1 \<le> \<bar>x\<bar> then int (halvings \<bar>x\<bar>) else - int (doublings \<bar>x\<bar>))"

definition pow2 :: "int \<Rightarrow> real" where
  "pow2 e = (if 0 \<le> e then 2 ^ nat e else 1 / 2 ^ nat (- e))"

text \<open>The integer nearest to \<open>q\<close>, the even one of two.\<close>

definition roundEven :: "real \<Rightarrow> int" where
  "roundEven q =
     (let f = \<lfloor>q\<rfloor>; r = q - of_int f in
      if r < 1 / 2 then f else if 1 / 2 < r then f + 1 else if even f then f else f + 1)"

text \<open>
  The spacing of the binary64 values around \<open>x\<close>: \<open>2\<^sup>e\<^sup>-\<^sup>5\<^sup>2\<close> for the exponent \<open>e\<close> of \<open>x\<close>,
  and \<open>2\<^sup>-\<^sup>1\<^sup>0\<^sup>7\<^sup>4\<close> below \<open>2\<^sup>-\<^sup>1\<^sup>0\<^sup>2\<^sup>2\<close>.
\<close>

definition ulp :: "real \<Rightarrow> real" where
  "ulp x = pow2 (max (bexp x) (- 1022) - 52)"

definition rnd64 :: "real \<Rightarrow> number" where
  "rnd64 x =
     (if x = 0 then Fin 0
      else
        (let y = of_int (roundEven (x / ulp x)) * ulp x in
         if 2 ^ 1024 \<le> \<bar>y\<bar> then (if 0 < x then PInf else NInf) else Fin y))"

fun rndN :: "number \<Rightarrow> number" where
  "rndN (Fin x) = rnd64 x"
| "rndN n = n"

text \<open>The four operations: the exact result, rounded.\<close>

definition fadd :: "number \<Rightarrow> number \<Rightarrow> number" where
  "fadd a b = rndN (nadd a b)"

definition fsub :: "number \<Rightarrow> number \<Rightarrow> number" where
  "fsub a b = rndN (nsub a b)"

definition fmul :: "number \<Rightarrow> number \<Rightarrow> number" where
  "fmul a b = rndN (nmul a b)"

definition fdiv :: "number \<Rightarrow> number \<Rightarrow> number" where
  "fdiv a b = rndN (ndiv a b)"

text \<open>
  \<^verbatim>\<open>Number(v)\<close>: a string is read as the binary64 value nearest to the decimal it spells.
\<close>

fun Number64 :: "jsval \<Rightarrow> number" where
  "Number64 (JStr s) = rndN (StringToNumber s)"
| "Number64 v = Number v"

subsection \<open>The program in binary64\<close>

definition num64 :: "jsval \<Rightarrow> number" where
  "num64 v = (let n = Number64 v in if isFiniteN n then n else Fin 0)"

text \<open>
  \<^verbatim>\<open>Math.round\<close> is exact on a binary64 value (from \<open>2\<^sup>5\<^sup>2\<close> on every value is an integer),
  so \<open>Math_round\<close> serves; the product and the quotient of \<^verbatim>\<open>round2\<close> are rounded.
\<close>

definition round2_64 :: "number \<Rightarrow> number" where
  "round2_64 x = fdiv (Math_round (fmul x (Fin 100))) (Fin 100)"

definition avgOfTimes64 :: "jsval \<Rightarrow> jsval \<Rightarrow> jsval \<Rightarrow> number" where
  "avgOfTimes64 t1 t2 t3 =
     (let arr = filter (\<lambda>v. isFiniteN v \<and> nle (Fin 0) v) (map Number64 [t1, t2, t3]) in
      if length arr = 0 then Fin 0
      else fdiv (foldl fadd (Fin 0) arr) (Fin (of_nat (length arr))))"

definition computeScore64 :: "RunInput \<Rightarrow> ScoreResult" where
  "computeScore64 inp =
     (let base = Fin 100;
          failed = truthy (failedRun inp);
          distCm = (if failed then Fin 2500 else num64 (vehicleDistanceCm inp));
          timeAvg = (if failed then Fin 0 else avgOfTimes64 (time1 inp) (time2 inp) (time3 inp));
          distanceScore = fmul (Fin 2) distCm;
          timeScore = timeAvg;
          bucket = (if truthy (bucketBonus inp) then Fin (- 100) else Fin 0);
          cv = (if truthy (competitionViolationPoints inp) then Fin 150 else Fin 0);
          conv = (if truthy (constructionViolationPoints inp) then Fin 300 else Fin 0);
          total = fadd (fadd (fadd (fadd (fadd base distanceScore) timeScore) bucket) cv) conv
      in \<lparr> total = round2_64 total,
           timeAvg = round2_64 timeAvg,
           breakdown = \<lparr> distCm = round2_64 distCm,
                         distanceScore = round2_64 distanceScore,
                         bTimeAvg = round2_64 timeAvg,
                         bucket = bucket,
                         penalties = fadd cv conv,
                         failed = failed \<rparr> \<rparr>)"

text \<open>The distance and the time average the score is composed from, and their sum.\<close>

definition distanceUsed64 :: "RunInput \<Rightarrow> number" where
  "distanceUsed64 inp =
     (if truthy (failedRun inp) then Fin 2500 else num64 (vehicleDistanceCm inp))"

definition timeUsed64 :: "RunInput \<Rightarrow> number" where
  "timeUsed64 inp =
     (if truthy (failedRun inp) then Fin 0
      else avgOfTimes64 (time1 inp) (time2 inp) (time3 inp))"

definition scoreSum64 :: "RunInput \<Rightarrow> number" where
  "scoreSum64 inp =
     fadd (fadd (fadd (fadd (fadd (Fin 100) (fmul (Fin 2) (distanceUsed64 inp))) (timeUsed64 inp))
       (if truthy (bucketBonus inp) then Fin (- 100) else Fin 0))
       (if truthy (competitionViolationPoints inp) then Fin 150 else Fin 0))
       (if truthy (constructionViolationPoints inp) then Fin 300 else Fin 0)"

text \<open>The same sum in exact arithmetic, from the distance and time average the code uses.\<close>

definition exactSum :: "RunInput \<Rightarrow> real" where
  "exactSum inp =
     100 + 2 * fval (distanceUsed64 inp) + fval (timeUsed64 inp)
       + (if truthy (bucketBonus inp) then - 100 else 0)
       + (if truthy (competitionViolationPoints inp) then 150 else 0)
       + (if truthy (constructionViolationPoints inp) then 300 else 0)"

text \<open>A practice or meet form: the distance a Number, the times as typed, the third left out.\<close>

definition twoTimes :: "real \<Rightarrow> string \<Rightarrow> string \<Rightarrow> RunInput" where
  "twoTimes d s1 s2 =
     \<lparr> vehicleDistanceCm = JNum (Fin d),
       time1 = JStr s1, time2 = JStr s2, time3 = JUndefined,
       bucketBonus = JBool False, failedRun = JBool False,
       competitionViolationPoints = JBool False, constructionViolationPoints = JBool False \<rparr>"

subsection \<open>The filter in binary64\<close>








subsection \<open>The ranking in binary64\<close>

text \<open>
  Lines 484 to 489 and 530 to 587 with \<^verbatim>\<open>Number\<close> of a text, the sums, the quotients and
  \<^verbatim>\<open>round2\<close> rounded to binary64. \<^verbatim>\<open>Math.min\<close>, the comparisons and \<^verbatim>\<open>toFixed\<close> are exact.
\<close>

definition setupKey64 :: "Run \<Rightarrow> string" where
  "setupKey64 r =
     (let a = toFixed (Number64 (js_or (carAngleDeg r) (JNum (Fin 0)))) 1;
          t = toFixed (Number64 (js_or (dialTurns r) (JNum (Fin 0)))) 2;
          w = toFixed (Number64 (js_or (winds r) (JNum (Fin 0)))) 0
      in a @ [CHR 0xB0] @ '' | '' @ t @ '' turns | '' @ w @ '' winds'')"

definition finiteScores64 :: "Run list \<Rightarrow> number list" where
  "finiteScores64 rs = filter isFiniteN (map (\<lambda>x. Number64 (score x)) rs)"

definition mean64 :: "number list \<Rightarrow> number" where
  "mean64 ss = fdiv (foldl fadd (Fin 0) ss) (Fin (of_nat (length ss)))"

definition rankStep64 :: "Ranking \<Rightarrow> string \<times> Run list \<Rightarrow> Ranking" where
  "rankStep64 st e =
     (case e of (sk, sRuns) \<Rightarrow>
        (let ss = finiteScores64 sRuns in
         if length ss = 0 then st
         else
           (let sAvg = mean64 ss;
                sBest = Math_min ss;
                st1 = (if nlt sAvg (bestAvgVal st)
                       then st \<lparr> bestAvgVal := sAvg,
                                 bestSetupAvg := sk @ '' (avg '' @ toFixed (round2_64 sAvg) 2
                                                 @ ''; n='' @ digitsOf (length ss) @ '')'' \<rparr>
                       else st)
            in if nlt sBest (bestSingleVal st1)
               then st1 \<lparr> bestSingleVal := sBest,
                          bestSetupSingle := sk @ '' (best '' @ toFixed (round2_64 sBest) 2 @ '')'' \<rparr>
               else st1)))"

definition rankSetups64 :: "(string \<times> Run list) list \<Rightarrow> Ranking" where
  "rankSetups64 bySetup = foldl rankStep64 rankInit bySetup"

definition summaryRow64 :: "string \<Rightarrow> Run list \<Rightarrow> SummaryRow" where
  "summaryRow64 k rs =
     (let scores = finiteScores64 rs;
          n = length scores;
          avg = (if n \<noteq> 0 then mean64 scores else NaN);
          best = (if n \<noteq> 0 then Math_min scores else NaN);
          bySetup = groupBy setupKey64 rs;
          st = rankSetups64 bySetup
      in \<lparr> trackGroupM = k,
           runsCount = n,
           avgScore = (if isFiniteN avg then JNum (round2_64 avg) else JStr []),
           bestScore = (if isFiniteN best then JNum (round2_64 best) else JStr []),
           bestSetupByAvg = bestSetupAvg st,
           bestSetupBySingle = bestSetupSingle st \<rparr>)"

text \<open>
  An entry of the setup map takes part in the ranking when it has a finite score
  (line 549). Its mean is the Number the code computes: the scores added up from left to
  right and divided by their count; its best score is the least of them. These are the
  labels the loop writes for it.
\<close>

definition ranked64 :: "string \<times> Run list \<Rightarrow> bool" where
  "ranked64 e = (finiteScores64 (snd e) \<noteq> [])"

definition setupMean64 :: "string \<times> Run list \<Rightarrow> number" where
  "setupMean64 e = mean64 (finiteScores64 (snd e))"

definition setupBest64 :: "string \<times> Run list \<Rightarrow> number" where
  "setupBest64 e = Math_min (finiteScores64 (snd e))"

definition avgLabel64 :: "string \<times> Run list \<Rightarrow> string" where
  "avgLabel64 e =
     fst e @ '' (avg '' @ toFixed (round2_64 (setupMean64 e)) 2
       @ ''; n='' @ digitsOf (length (finiteScores64 (snd e))) @ '')''"

definition singleLabel64 :: "string \<times> Run list \<Rightarrow> string" where
  "singleLabel64 e = fst e @ '' (best '' @ toFixed (round2_64 (setupBest64 e)) 2 @ '')''"

text \<open>The mean of the same scores in exact arithmetic.\<close>

definition exactMean :: "string \<times> Run list \<Rightarrow> real" where
  "exactMean e =
     sum_list (map fval (finiteScores64 (snd e))) / of_nat (length (finiteScores64 (snd e)))"

text \<open>
  \<open>e\<close> is the first lowest entry of \<open>pre @ e # post\<close> under \<open>val\<close>: it is ranked, its value
  is below \<^verbatim>\<open>Infinity\<close>, strictly below that of every ranked entry before it and not
  above that of any ranked entry after it.
\<close>

definition firstLowest64 ::
  "(string \<times> Run list \<Rightarrow> number) \<Rightarrow> (string \<times> Run list) list \<Rightarrow> string \<times> Run list
     \<Rightarrow> (string \<times> Run list) list \<Rightarrow> bool" where
  "firstLowest64 val pre e post =
     (ranked64 e \<and> nlt (val e) PInf \<and> (\<forall>e' \<in> set pre. ranked64 e' \<longrightarrow> nlt (val e) (val e'))
        \<and> (\<forall>e' \<in> set post. ranked64 e' \<longrightarrow> nle (val e) (val e')))"

text \<open>
  One of the two updates of the loop body, seen alone: the current label and value are
  replaced when the entry is ranked and its value is below the current one.
\<close>

definition better64 ::
  "(string \<times> Run list \<Rightarrow> number) \<Rightarrow> (string \<times> Run list \<Rightarrow> string) \<Rightarrow> string \<times> number
     \<Rightarrow> string \<times> Run list \<Rightarrow> string \<times> number" where
  "better64 val lbl cur e = (if ranked64 e \<and> nlt (val e) (snd cur) then (lbl e, val e) else cur)"

text \<open>
  A stored run at target \<open>5\<close> with car angle \<open>a\<close>, \<open>3\<close> dial turns, \<open>20\<close> winds and the
  score that the text \<open>s\<close> reads as; and a track group of two setups with the same three
  scores \<open>700.1\<close>, \<open>700.2\<close>, \<open>700.3\<close>, the second setup having run them in reverse order.
\<close>

definition scoredRun :: "real \<Rightarrow> string \<Rightarrow> Run" where
  "scoredRun a s =
     \<lparr> targetDistanceM = JNum (Fin 5), carAngleDeg = JNum (Fin a), dialTurns = JNum (Fin 3),
       winds = JNum (Fin 20), score = JNum (Number64 (JStr s)) \<rparr>"

definition orderExample :: "Run list" where
  "orderExample =
     [scoredRun 12 ''700.1'', scoredRun 12 ''700.2'', scoredRun 12 ''700.3'',
      scoredRun 13 ''700.3'', scoredRun 13 ''700.2'', scoredRun 13 ''700.1'']"

section \<open>Facts about Numbers\<close>


lemma foldl_nadd_Fin:
  "list_all isFiniteN xs \<Longrightarrow> foldl nadd (Fin a) xs = Fin (a + sum_list (map fval xs))"
proof (induction xs arbitrary: a)
  case Nil
  then show ?case by simp
next
  case (Cons x xs)
  then obtain b where "x = Fin b" by (cases x) simp_all
  with Cons show ?case by (simp add: add.assoc)
qed


text \<open>\<open>round2dec x\<close> is a multiple of \<open>1/100\<close> nearest to \<open>x\<close>.\<close>

lemma round2dec_near: "\<bar>round2dec x - x\<bar> \<le> 1 / 200"
proof -
  define k :: real where "k = of_int \<lfloor>x * 100 + 1 / 2\<rfloor>"
  have lo: "k \<le> x * 100 + 1 / 2" unfolding k_def by linarith
  have hi: "x * 100 + 1 / 2 < k + 1" unfolding k_def by linarith
  have r: "round2dec x = k / 100" by (simp add: round2dec_def k_def)
  show ?thesis unfolding r using lo hi by linarith
qed

lemma round2dec_hundredths: "\<exists>k::int. round2dec x = of_int k / 100"
  by (auto simp: round2dec_def)

section \<open>The score\<close>







lemma avgOfTimes_examples:
  "avgOfTimes (JNum (Fin 5)) (JNum (Fin (- 1))) (JNum NaN) = Fin 5"
  "avgOfTimes JUndefined JUndefined JUndefined = Fin 0"
  "avgOfTimes (JStr []) (JStr []) (JStr []) = Fin 0"
  by (simp_all add: avgOfTimes_def StringToNumber_def trim_def)

text \<open>
  Claim C3 (the code departs from it). An empty time field is the empty string, which
  \<^verbatim>\<open>Number\<close> turns into \<open>0\<close>: it passes the filter and is averaged in as a time of
  \<open>0\<close> seconds. A form with the one time \<open>10\<close> and two empty fields averages to \<open>10/3\<close>,
  shown as \<open>3.33\<close>, and not to \<open>10\<close>.
\<close>

theorem C3_empty_time_is_averaged_as_zero:
  "Number (JStr []) = Fin 0 \<and>
   avgOfTimes (JStr ''10'') (JStr []) (JStr []) = Fin (10 / 3) \<and>
   timeAvg (computeScore (formRun (Fin 300) ''10'' [] [] False)) = Fin (333 / 100) \<and>
   total (computeScore (formRun (Fin 300) ''10'' [] [] False)) = Fin (70333 / 100)"
  by code_simp




section \<open>The meet\<close>




section \<open>Grouping\<close>

lemma groupPush_keys:
  "map fst (groupPush k r g) = (if k \<in> set (map fst g) then map fst g else map fst g @ [k])"
  by (induction k r g rule: groupPush.induct) auto

lemma groupPush_map_of:
  "map_of (groupPush k r g)
     = (map_of g)(k \<mapsto> (case map_of g k of None \<Rightarrow> [r] | Some rs \<Rightarrow> rs @ [r]))"
  by (induction k r g rule: groupPush.induct) (auto simp: fun_eq_iff)

lemma groupBy_snoc: "groupBy key (runs @ [r]) = groupPush (key r) r (groupBy key runs)"
  by (simp add: groupBy_def)

lemma groupBy_Nil: "groupBy key [] = []"
  by (simp add: groupBy_def)

text \<open>The keys of the map are the keys of the runs, each once.\<close>

lemma groupBy_keys_set: "set (map fst (groupBy key runs)) = key ` set runs"
proof (induction runs rule: rev_induct)
  case Nil
  then show ?case by (simp add: groupBy_Nil)
next
  case (snoc r runs)
  then show ?case
    by (auto simp: groupBy_snoc groupPush_keys simp del: set_map)
qed

lemma groupBy_keys_distinct: "distinct (map fst (groupBy key runs))"
proof (induction runs rule: rev_induct)
  case Nil
  then show ?case by (simp add: groupBy_Nil)
next
  case (snoc r runs)
  then show ?case
    by (simp add: groupBy_snoc groupPush_keys del: set_map)
qed

text \<open>Under each key the map holds the runs with that key, in their order.\<close>

lemma groupBy_map_of:
  "map_of (groupBy key runs) k
     = (if k \<in> key ` set runs then Some (filter (\<lambda>r. key r = k) runs) else None)"
proof (induction runs rule: rev_induct)
  case Nil
  then show ?case by (simp add: groupBy_Nil)
next
  case (snoc r runs)
  show ?case
  proof (cases "k = key r")
    case True
    have "filter (\<lambda>x. key x = key r) runs = []" if "key r \<notin> key ` set runs"
    proof -
      have "key x \<noteq> key r" if "x \<in> set runs" for x
        using that \<open>key r \<notin> key ` set runs\<close> by (metis imageI)
      then show ?thesis by (simp add: filter_empty_conv)
    qed
    with True snoc show ?thesis
      by (simp add: groupBy_snoc groupPush_map_of)
  next
    case False
    with snoc show ?thesis
      by (auto simp: groupBy_snoc groupPush_map_of)
  qed
qed

lemma groupBy_entry:
  "(k, rs) \<in> set (groupBy key runs) \<Longrightarrow> rs = filter (\<lambda>r. key r = k) runs \<and> rs \<noteq> []"
proof -
  assume mem: "(k, rs) \<in> set (groupBy key runs)"
  then have "map_of (groupBy key runs) k = Some rs"
    using groupBy_keys_distinct [of key runs] by simp
  moreover from mem have "k \<in> key ` set runs"
    using groupBy_keys_set [of key runs] by force
  ultimately have rs: "rs = filter (\<lambda>r. key r = k) runs"
    by (simp add: groupBy_map_of)
  from \<open>k \<in> key ` set runs\<close> have "filter (\<lambda>r. key r = k) runs \<noteq> []"
    by (auto simp: filter_empty_conv)
  with rs show ?thesis by simp
qed

section \<open>Sorting\<close>

lemma set_insertBy: "set (insertBy cmp x ys) = insert x (set ys)"
  by (induction ys) auto

lemma length_insertBy: "length (insertBy cmp x ys) = Suc (length ys)"
  by (induction ys) auto

lemma distinct_insertBy: "distinct (insertBy cmp x ys) \<longleftrightarrow> x \<notin> set ys \<and> distinct ys"
  by (induction ys) (auto simp: set_insertBy)

lemma set_Array_sort: "set (Array_sort cmp xs) = set xs"
  by (induction xs) (simp_all add: Array_sort_def set_insertBy)

lemma length_Array_sort: "length (Array_sort cmp xs) = length xs"
  by (induction xs) (simp_all add: Array_sort_def length_insertBy)

lemma distinct_Array_sort: "distinct (Array_sort cmp xs) \<longleftrightarrow> distinct xs"
  by (induction xs) (simp_all add: Array_sort_def distinct_insertBy set_insertBy set_Array_sort [unfolded Array_sort_def])

section \<open>The summary\<close>

lemma summaryRows_total:
  "set ks \<subseteq> set (map fst g) \<Longrightarrow>
     summaryRows g ks = Inr (map (\<lambda>k. summaryRow k (case map_of g k of Some rs \<Rightarrow> rs | None \<Rightarrow> [])) ks)"
proof (induction ks)
  case Nil
  then show ?case by simp
next
  case (Cons k ks)
  then have "k \<in> fst ` set g" by simp
  then obtain rs where "map_of g k = Some rs"
    by (metis domD dom_map_of_conv_image_fst)
  with Cons show ?case by simp
qed

text \<open>
  The summary as a function of the filtered runs: one row per track key, in sorted order,
  each computed from the runs with that key.
\<close>

lemma renderPracticeSummary_rows:
  assumes "filterRuns a b userRuns = runs" and "runs \<noteq> []"
  shows "renderPracticeSummary a b userRuns =
    Inr \<lparr> practiceMsg = ''Showing '' @ digitsOf (length runs) @ '' run(s).'',
          practiceSummary =
            map (\<lambda>k. summaryRow k (filter (\<lambda>r. trackKey (targetDistanceM r) = k) runs))
              (Array_sort cmpTrack (map fst (groupBy (\<lambda>r. trackKey (targetDistanceM r)) runs))) \<rparr>"
proof -
  define key :: "Run \<Rightarrow> string" where "key = (\<lambda>r. trackKey (targetDistanceM r))"
  define g where "g = groupBy key runs"
  define ks where "ks = Array_sort cmpTrack (map fst g)"
  have sub: "set ks \<subseteq> set (map fst g)"
    by (simp add: ks_def set_Array_sort)
  have "map (\<lambda>k. summaryRow k (case map_of g k of Some rs \<Rightarrow> rs | None \<Rightarrow> [])) ks
      = map (\<lambda>k. summaryRow k (filter (\<lambda>r. key r = k) runs)) ks"
  proof (rule map_cong [OF refl])
    fix k assume "k \<in> set ks"
    with sub have "k \<in> key ` set runs"
      using groupBy_keys_set [of key runs] by (auto simp: g_def)
    then show "summaryRow k (case map_of g k of Some rs \<Rightarrow> rs | None \<Rightarrow> [])
        = summaryRow k (filter (\<lambda>r. key r = k) runs)"
      by (simp add: g_def groupBy_map_of)
  qed
  with summaryRows_total [OF sub]
  have "summaryRows g ks = Inr (map (\<lambda>k. summaryRow k (filter (\<lambda>r. key r = k) runs)) ks)"
    by simp
  then have "summaryRows (groupBy (\<lambda>r. trackKey (targetDistanceM r)) runs)
        (Array_sort cmpTrack (map fst (groupBy (\<lambda>r. trackKey (targetDistanceM r)) runs)))
      = Inr (map (\<lambda>k. summaryRow k (filter (\<lambda>r. trackKey (targetDistanceM r) = k) runs))
          (Array_sort cmpTrack (map fst (groupBy (\<lambda>r. trackKey (targetDistanceM r)) runs))))"
    by (simp add: ks_def g_def key_def)
  with assms show ?thesis
    by (simp add: renderPracticeSummary_def Let_def)
qed

lemma renderPracticeSummary_empty:
  "filterRuns a b userRuns = [] \<Longrightarrow>
     renderPracticeSummary a b userRuns = Inr \<lparr> practiceMsg = noMatchMsg, practiceSummary = [] \<rparr>"
  by (simp add: renderPracticeSummary_def)

lemma filterRuns_Nil: "filterRuns a b [] = []"
  by (simp add: filterRuns_def Let_def split: option.split)

text \<open>
  Claim C9. The summary never throws: it always returns a message and a list of rows.
  When the user has no runs, or the filter keeps none, the list of rows is empty and the
  message is the no-match message; when runs remain, the list has a row and the message
  is another one.
\<close>

theorem C9_summary_total_and_empty:
  "(\<exists>out. renderPracticeSummary a b userRuns = Inr out
      \<and> (practiceMsg out = noMatchMsg \<longleftrightarrow> filterRuns a b userRuns = [])
      \<and> (practiceSummary out = [] \<longleftrightarrow> filterRuns a b userRuns = []))
   \<and> renderPracticeSummary a b [] = Inr \<lparr> practiceMsg = noMatchMsg, practiceSummary = [] \<rparr>"
proof -
  have "\<exists>out. renderPracticeSummary a b userRuns = Inr out
      \<and> (practiceMsg out = noMatchMsg \<longleftrightarrow> filterRuns a b userRuns = [])
      \<and> (practiceSummary out = [] \<longleftrightarrow> filterRuns a b userRuns = [])"
  proof (cases "filterRuns a b userRuns = []")
    case True
    then show ?thesis by (simp add: renderPracticeSummary_empty)
  next
    case False
    define runs where "runs = filterRuns a b userRuns"
    have ne: "runs \<noteq> []" using False by (simp add: runs_def)
    have keys: "groupBy (\<lambda>r. trackKey (targetDistanceM r)) runs \<noteq> []"
      using groupBy_keys_set [of "\<lambda>r. trackKey (targetDistanceM r)" runs] ne by auto
    have "Array_sort cmpTrack (map fst (groupBy (\<lambda>r. trackKey (targetDistanceM r)) runs)) \<noteq> []"
      using keys length_Array_sort [of cmpTrack "map fst (groupBy (\<lambda>r. trackKey (targetDistanceM r)) runs)"]
      by (metis length_0_conv map_is_Nil_conv)
    then show ?thesis
      using False renderPracticeSummary_rows [OF runs_def [symmetric] ne]
      by (simp add: noMatchMsg_def runs_def)
  qed
  then show ?thesis
    by (simp add: renderPracticeSummary_empty filterRuns_Nil)
qed

theorem C9_summary_total_and_empty_witness:
  "renderPracticeSummary ''7'' []
     [savedRun (5001 / 1000) 12 3 20 700, savedRun 0 12 3 20 650]
   = Inr \<lparr> practiceMsg = ''No runs match this filter.'', practiceSummary = [] \<rparr>"
proof -
  have none: "filterRuns ''7'' [] [savedRun (5001 / 1000) 12 3 20 700, savedRun 0 12 3 20 650] = []"
    by code_simp
  from C9_summary_total_and_empty
    [of "''7''" "[]" "[savedRun (5001 / 1000) 12 3 20 700, savedRun 0 12 3 20 650]"] none
  show ?thesis
    by (auto simp: noMatchMsg_def)
qed

section \<open>Printing and reading decimals\<close>

lemma of_char_digitChar: "d < 10 \<Longrightarrow> (of_char (digitChar d) :: nat) = 48 + d"
  by (simp add: digitChar_def)

lemma isDigit_digitChar: "d < 10 \<Longrightarrow> isDigit (digitChar d)"
  by (simp add: isDigit_def of_char_digitChar)

lemma digitVal_digitChar: "d < 10 \<Longrightarrow> digitVal (digitChar d) = d"
  by (simp add: digitVal_def of_char_digitChar)

lemma digitsVal_snoc: "digitsVal (xs @ [c]) = 10 * digitsVal xs + digitVal c"
  by (simp add: digitsVal_def)

lemma digitsVal_append: "digitsVal (xs @ ys) = digitsVal xs * 10 ^ length ys + digitsVal ys"
proof (induction ys rule: rev_induct)
  case Nil
  then show ?case by (simp add: digitsVal_def)
next
  case (snoc y ys)
  have "digitsVal (xs @ ys @ [y]) = 10 * digitsVal (xs @ ys) + digitVal y"
    using digitsVal_snoc [of "xs @ ys" y] by simp
  with snoc show ?case
    by (simp add: digitsVal_snoc algebra_simps)
qed

lemma digitsOf_digits: "list_all isDigit (digitsOf n)"
proof (induction n rule: digitsOf.induct)
  case (1 n)
  then show ?case
    by (subst digitsOf.simps) (simp add: isDigit_digitChar)
qed

lemma digitsOf_nonempty: "digitsOf n \<noteq> []"
  by (subst digitsOf.simps) simp

lemma digitsVal_digitsOf: "digitsVal (digitsOf n) = n"
proof (induction n rule: digitsOf.induct)
  case (1 n)
  show ?case
  proof (cases "n < 10")
    case True
    then show ?thesis
      by (subst digitsOf.simps) (simp add: digitsVal_def digitVal_digitChar)
  next
    case False
    with 1 show ?thesis
      by (subst digitsOf.simps) (simp add: digitsVal_snoc digitVal_digitChar)
  qed
qed

lemma digitsVal_zeros: "digitsVal (replicate k (CHR ''0'') @ xs) = digitsVal xs"
proof (induction k)
  case 0
  then show ?case by simp
next
  case (Suc k)
  have "digitsVal (CHR ''0'' # ys) = digitsVal ys" for ys
    using digitsVal_append [of "[CHR ''0'']" ys] by (simp add: digitsVal_def digitVal_def)
  with Suc show ?case by simp
qed

text \<open>
  The shape of a fixed-point rendering with \<open>f > 0\<close> decimals: integer digits, a point,
  \<open>f\<close> fraction digits, which together spell \<open>n\<close>.
\<close>

lemma fixedDigits_shape:
  assumes "0 < f"
  shows "\<exists>ip fp. fixedDigits n f = ip @ CHR ''.'' # fp \<and> ip \<noteq> [] \<and> list_all isDigit ip
            \<and> list_all isDigit fp \<and> length fp = f
            \<and> digitsVal ip * 10 ^ f + digitsVal fp = n"
proof -
  define m where "m = digitsOf n"
  define m' where "m' = (if length m \<le> f then replicate (f + 1 - length m) (CHR ''0'') @ m else m)"
  define k where "k = length m'"
  have len: "f < k"
    by (auto simp: k_def m'_def)
  have dig: "list_all isDigit m'"
    using digitsOf_digits [of n] by (auto simp: m'_def m_def list_all_iff isDigit_def)
  have valm: "digitsVal m' = n"
    by (simp add: m'_def m_def digitsVal_zeros digitsVal_digitsOf)
  have eq: "fixedDigits n f = take (k - f) m' @ CHR ''.'' # drop (k - f) m'"
    using assms by (simp add: fixedDigits_def Let_def m_def m'_def k_def)
  have "digitsVal (take (k - f) m' @ drop (k - f) m')
      = digitsVal (take (k - f) m') * 10 ^ length (drop (k - f) m') + digitsVal (drop (k - f) m')"
    by (rule digitsVal_append)
  moreover have "length (drop (k - f) m') = f"
    using len by (simp add: k_def)
  ultimately have val: "digitsVal (take (k - f) m') * 10 ^ f + digitsVal (drop (k - f) m') = n"
    using valm by simp
  have "take (k - f) m' \<noteq> []"
    using len by (auto simp: k_def)
  moreover have "list_all isDigit (take (k - f) m')" "list_all isDigit (drop (k - f) m')"
    using dig by (auto simp: list_all_iff dest: in_set_takeD in_set_dropD)
  ultimately show ?thesis
    using eq val \<open>length (drop (k - f) m') = f\<close> by blast
qed

lemma fixedDigits_0: "fixedDigits n 0 = digitsOf n"
  by (simp add: fixedDigits_def)
lemma takeWhile_digits:
  assumes "list_all isDigit xs" and "r = [] \<or> \<not> isDigit (hd r)"
  shows "takeWhile isDigit (xs @ r) = xs" and "dropWhile isDigit (xs @ r) = r"
proof -
  have r: "takeWhile isDigit r = []" "dropWhile isDigit r = r"
    using assms(2) by (cases r; simp)+
  from assms(1) show "takeWhile isDigit (xs @ r) = xs"
    by (induction xs) (simp_all add: r)
  from assms(1) show "dropWhile isDigit (xs @ r) = r"
    by (induction xs) (simp_all add: r)
qed

lemma ExponentPart_plus:
  "es \<noteq> [] \<Longrightarrow> list_all isDigit es \<Longrightarrow>
     ExponentPart (CHR ''e'' # CHR ''+'' # es) = Some (int (digitsVal es))"
  by (simp add: ExponentPart_def)

lemma ExponentPart_Nil: "ExponentPart [] = Some 0"
  by (simp add: ExponentPart_def)

lemma not_Infinity: "isDigit c \<Longrightarrow> c # s \<noteq> ''Infinity''"
  by (auto simp: isDigit_def)

text \<open>Reading digits, an optional fraction and an optional exponent.\<close>

lemma unsigned_fraction:
  assumes "ip \<noteq> []" "list_all isDigit ip" "list_all isDigit fp"
    and "r = [] \<or> \<not> isDigit (hd r)" and "ExponentPart r = Some e"
  shows "StrUnsignedDecimalLiteral (ip @ CHR ''.'' # fp @ r)
    = Some (Fin ((of_nat (digitsVal ip) + of_nat (digitsVal fp) / 10 ^ length fp) * pow10 e))"
proof -
  obtain c cs where ip: "ip = c # cs" and c: "isDigit c"
    using assms(1,2) by (cases ip) auto
  have ne: "ip @ CHR ''.'' # fp @ r \<noteq> ''Infinity''"
    using not_Infinity [OF c] by (simp add: ip)
  have dot: "\<not> isDigit (CHR ''.'')"
    by (simp add: isDigit_def)
  have t1: "takeWhile isDigit (ip @ CHR ''.'' # fp @ r) = ip"
    and d1: "dropWhile isDigit (ip @ CHR ''.'' # fp @ r) = CHR ''.'' # fp @ r"
    using takeWhile_digits [OF assms(2), of "CHR ''.'' # fp @ r"] dot by simp_all
  have t2: "takeWhile isDigit (fp @ r) = fp" and d2: "dropWhile isDigit (fp @ r) = r"
    using takeWhile_digits [OF assms(3,4)] by simp_all
  show ?thesis
    unfolding StrUnsignedDecimalLiteral_def Let_def t1 d1
    using ne assms(1,5) by (simp add: t2 d2)
qed

lemma unsigned_integer:
  assumes "ip \<noteq> []" "list_all isDigit ip"
    and "r = [] \<or> (\<not> isDigit (hd r) \<and> hd r \<noteq> CHR ''.'')" and "ExponentPart r = Some e"
  shows "StrUnsignedDecimalLiteral (ip @ r) = Some (Fin (of_nat (digitsVal ip) * pow10 e))"
proof -
  obtain c cs where ip: "ip = c # cs" and c: "isDigit c"
    using assms(1,2) by (cases ip) auto
  have ne: "ip @ r \<noteq> ''Infinity''"
    using not_Infinity [OF c] by (simp add: ip)
  have t1: "takeWhile isDigit (ip @ r) = ip" and d1: "dropWhile isDigit (ip @ r) = r"
    using takeWhile_digits [OF assms(2), of r] assms(3) by auto
  have nodot: "(case r of [] \<Rightarrow> False | c # _ \<Rightarrow> c = CHR ''.'') = False"
    using assms(3) by (cases r) auto
  show ?thesis
    unfolding StrUnsignedDecimalLiteral_def Let_def t1 d1 nodot
    using ne assms(1,4) by (simp add: digitsVal_def)
qed

lemma StrDecimalLiteral_digit:
  "isDigit c \<Longrightarrow> StrDecimalLiteral (c # s) = StrUnsignedDecimalLiteral (c # s)"
  by (auto simp: StrDecimalLiteral_def isDigit_def)

lemma StrDecimalLiteral_minus:
  "StrDecimalLiteral (CHR ''-'' # s) = map_option nneg (StrUnsignedDecimalLiteral s)"
  by (simp add: StrDecimalLiteral_def)

lemma numChar_not_space: "numChar c \<Longrightarrow> \<not> isWhiteSpace c"
  by (auto simp: numChar_def isWhiteSpace_def isDigit_def)

lemma trim_numChars: "list_all numChar s \<Longrightarrow> trim s = s"
proof -
  assume a: "list_all numChar s"
  then have "dropWhile isWhiteSpace s = s"
    by (cases s) (auto simp: numChar_not_space)
  moreover from a have "dropWhile isWhiteSpace (rev s) = rev s"
    by (cases s rule: rev_cases) (auto simp: numChar_not_space)
  ultimately show ?thesis by (simp add: trim_def)
qed

lemma numChar_not_radix:
  "numChar p \<Longrightarrow> p \<noteq> CHR ''x'' \<and> p \<noteq> CHR ''X'' \<and> p \<noteq> CHR ''o'' \<and> p \<noteq> CHR ''O''
     \<and> p \<noteq> CHR ''b'' \<and> p \<noteq> CHR ''B''"
  by (auto simp: numChar_def isDigit_def)

lemma NonDecimal_numChars: "list_all numChar s \<Longrightarrow> NonDecimalIntegerLiteral s = None"
proof (cases s)
  case Nil
  then show ?thesis by (simp add: NonDecimalIntegerLiteral_def)
next
  case (Cons z s')
  assume a: "list_all numChar s"
  show ?thesis
  proof (cases s')
    case Nil
    with Cons show ?thesis by (simp add: NonDecimalIntegerLiteral_def)
  next
    case (Cons p ds)
    with a \<open>s = z # s'\<close> have "numChar p" by simp
    from numChar_not_radix [OF this] Cons \<open>s = z # s'\<close> show ?thesis
      by (simp add: NonDecimalIntegerLiteral_def)
  qed
qed

lemma StringToNumber_numChars:
  "list_all numChar s \<Longrightarrow> s \<noteq> [] \<Longrightarrow>
     StringToNumber s = (case StrDecimalLiteral s of Some n \<Rightarrow> n | None \<Rightarrow> NaN)"
  by (simp add: StringToNumber_def trim_numChars NonDecimal_numChars)
lemma digits_numChars: "list_all isDigit s \<Longrightarrow> list_all numChar s"
  by (simp add: list_all_iff numChar_def)

lemma fixedDigits_numChars: "list_all numChar (fixedDigits n f)"
proof (cases "f = 0")
  case True
  then show ?thesis
    by (simp add: fixedDigits_0 digits_numChars digitsOf_digits)
next
  case False
  then obtain ip fp where "fixedDigits n f = ip @ CHR ''.'' # fp"
    "list_all isDigit ip" "list_all isDigit fp"
    using fixedDigits_shape [of f n] by auto
  then show ?thesis
    using digits_numChars [of ip] digits_numChars [of fp] by (simp add: numChar_def)
qed

lemma fixedDigits_head: "\<exists>c cs. fixedDigits n f = c # cs \<and> isDigit c"
proof (cases "f = 0")
  case True
  then show ?thesis
    using digitsOf_digits [of n] digitsOf_nonempty [of n]
    by (cases "digitsOf n") (simp_all add: fixedDigits_0)
next
  case False
  then obtain ip fp where "fixedDigits n f = ip @ CHR ''.'' # fp" "ip \<noteq> []" "list_all isDigit ip"
    using fixedDigits_shape [of f n] by auto
  then show ?thesis by (cases ip) simp_all
qed

text \<open>A fixed-point rendering reads back as \<open>n / 10\<^sup>f\<close>.\<close>

lemma fixedDigits_read:
  "StrUnsignedDecimalLiteral (fixedDigits n f) = Some (Fin (of_nat n / 10 ^ f))"
proof (cases "f = 0")
  case True
  have "StrUnsignedDecimalLiteral (digitsOf n @ []) = Some (Fin (of_nat (digitsVal (digitsOf n)) * pow10 0))"
    by (rule unsigned_integer) (simp_all add: digitsOf_nonempty digitsOf_digits ExponentPart_Nil)
  with True show ?thesis
    by (simp add: fixedDigits_0 digitsVal_digitsOf pow10_def)
next
  case False
  then obtain ip fp where shape: "fixedDigits n f = ip @ CHR ''.'' # fp" "ip \<noteq> []"
    "list_all isDigit ip" "list_all isDigit fp" "length fp = f"
    "digitsVal ip * 10 ^ f + digitsVal fp = n"
    using fixedDigits_shape [of f n] by auto
  have "StrUnsignedDecimalLiteral (ip @ CHR ''.'' # fp @ [])
      = Some (Fin ((of_nat (digitsVal ip) + of_nat (digitsVal fp) / 10 ^ length fp) * pow10 0))"
    by (rule unsigned_fraction) (simp_all add: shape ExponentPart_Nil)
  moreover have "(of_nat (digitsVal ip) + of_nat (digitsVal fp) / 10 ^ f :: real) = of_nat n / 10 ^ f"
  proof -
    have "(of_nat n :: real) = of_nat (digitsVal ip) * 10 ^ f + of_nat (digitsVal fp)"
      using shape(6) [symmetric] by simp
    then show ?thesis by (simp add: field_simps)
  qed
  ultimately show ?thesis
    by (simp add: shape pow10_def)
qed

lemma expDigits_shape:
  "\<exists>ip r es. expDigits n = ip @ r @ CHR ''e'' # CHR ''+'' # es \<and> ip \<noteq> [] \<and> list_all isDigit ip
      \<and> (r = [] \<or> (\<exists>fp. r = CHR ''.'' # fp \<and> list_all isDigit fp))
      \<and> es \<noteq> [] \<and> list_all isDigit es"
proof -
  define ds where "ds = digitsOf n"
  define sig where "sig = rev (dropWhile (\<lambda>c. c = CHR ''0'') (rev ds))"
  define es where "es = digitsOf (length ds - 1)"
  have es: "es \<noteq> []" "list_all isDigit es"
    by (simp_all add: es_def digitsOf_nonempty digitsOf_digits)
  have ds: "ds \<noteq> []" "list_all isDigit ds"
    by (simp_all add: ds_def digitsOf_nonempty digitsOf_digits)
  have sigd: "list_all isDigit sig"
    using ds(2) by (auto simp: sig_def list_all_iff dest: set_dropWhileD)
  show ?thesis
  proof (cases sig)
    case Nil
    then have "expDigits n = ds @ [] @ CHR ''e'' # CHR ''+'' # es"
      by (simp add: expDigits_def Let_def ds_def [symmetric] sig_def [symmetric] es_def)
    with ds es show ?thesis by blast
  next
    case (Cons d rest)
    show ?thesis
    proof (cases "rest = []")
      case True
      with Cons have "expDigits n = [d] @ [] @ CHR ''e'' # CHR ''+'' # es"
        by (simp add: expDigits_def Let_def ds_def [symmetric] sig_def [symmetric] es_def)
      moreover have "list_all isDigit [d]" using sigd Cons by simp
      ultimately show ?thesis using es by blast
    next
      case False
      with Cons have "expDigits n = [d] @ (CHR ''.'' # rest) @ CHR ''e'' # CHR ''+'' # es"
        by (simp add: expDigits_def Let_def ds_def [symmetric] sig_def [symmetric] es_def)
      moreover have "list_all isDigit [d]" "list_all isDigit rest" using sigd Cons by simp_all
      ultimately show ?thesis using es by blast
    qed
  qed
qed

lemma expDigits_numChars: "list_all numChar (expDigits n)"
proof -
  obtain ip r es where "expDigits n = ip @ r @ CHR ''e'' # CHR ''+'' # es" "list_all isDigit ip"
    "r = [] \<or> (\<exists>fp. r = CHR ''.'' # fp \<and> list_all isDigit fp)" "list_all isDigit es"
    using expDigits_shape [of n] by blast
  then show ?thesis
    using digits_numChars [of ip] digits_numChars [of es] digits_numChars
    by (auto simp: numChar_def)
qed

lemma expDigits_head: "\<exists>c cs. expDigits n = c # cs \<and> isDigit c"
proof -
  obtain ip r es where "expDigits n = ip @ r @ CHR ''e'' # CHR ''+'' # es" "ip \<noteq> []"
    "list_all isDigit ip"
    using expDigits_shape [of n] by blast
  then show ?thesis by (cases ip) simp_all
qed

lemma expDigits_read: "\<exists>v. StrUnsignedDecimalLiteral (expDigits n) = Some (Fin v)"
proof -
  obtain ip r es where shape: "expDigits n = ip @ r @ CHR ''e'' # CHR ''+'' # es" "ip \<noteq> []"
    "list_all isDigit ip" "r = [] \<or> (\<exists>fp. r = CHR ''.'' # fp \<and> list_all isDigit fp)"
    "es \<noteq> []" "list_all isDigit es"
    using expDigits_shape [of n] by blast
  have e: "ExponentPart (CHR ''e'' # CHR ''+'' # es) = Some (int (digitsVal es))"
    using shape(5,6) by (rule ExponentPart_plus)
  have nd: "\<not> isDigit (CHR ''e'')" "CHR ''e'' \<noteq> CHR ''.''"
    by (simp_all add: isDigit_def)
  from shape(4) show ?thesis
  proof
    assume "r = []"
    moreover have "StrUnsignedDecimalLiteral (ip @ CHR ''e'' # CHR ''+'' # es)
        = Some (Fin (of_nat (digitsVal ip) * pow10 (int (digitsVal es))))"
      by (rule unsigned_integer) (simp_all add: shape e nd)
    ultimately show ?thesis by (simp add: shape(1))
  next
    assume "\<exists>fp. r = CHR ''.'' # fp \<and> list_all isDigit fp"
    then obtain fp where r: "r = CHR ''.'' # fp" and fp: "list_all isDigit fp" by blast
    have "StrUnsignedDecimalLiteral (ip @ CHR ''.'' # fp @ CHR ''e'' # CHR ''+'' # es)
        = Some (Fin ((of_nat (digitsVal ip) + of_nat (digitsVal fp) / 10 ^ length fp)
            * pow10 (int (digitsVal es))))"
      by (rule unsigned_fraction) (simp_all add: shape fp e nd)
    then show ?thesis by (simp add: shape(1) r)
  qed
qed

text \<open>What \<^verbatim>\<open>Number\<close> reads from a \<^verbatim>\<open>toFixed\<close> rendering of a finite value.\<close>

lemma signed_read:
  assumes "body = c # cs" "isDigit c" "list_all numChar body"
    and "StrUnsignedDecimalLiteral body = Some v"
  shows "StringToNumber ((if neg then ''-'' else []) @ body) = (if neg then nneg v else v)"
proof (cases neg)
  case True
  have "list_all numChar (CHR ''-'' # body)"
    using assms(3) by (simp add: numChar_def)
  then have "StringToNumber (CHR ''-'' # body)
      = (case StrDecimalLiteral (CHR ''-'' # body) of Some n \<Rightarrow> n | None \<Rightarrow> NaN)"
    by (rule StringToNumber_numChars) simp
  with True assms(4) show ?thesis
    by (simp add: StrDecimalLiteral_minus)
next
  case False
  have "StringToNumber body = (case StrDecimalLiteral body of Some n \<Rightarrow> n | None \<Rightarrow> NaN)"
    using assms(3) by (rule StringToNumber_numChars) (simp add: assms(1))
  with False assms show ?thesis
    by (simp add: StrDecimalLiteral_digit)
qed

lemma Number_toFixed:
  "\<bar>x\<bar> < 10 ^ 21 \<Longrightarrow>
     StringToNumber (toFixed (Fin x) f)
       = Fin ((if x < 0 then - 1 else 1) * of_nat (snd (fixedRound f x)) / 10 ^ f)"
proof -
  assume small: "\<bar>x\<bar> < 10 ^ 21"
  define n where "n = nat \<lfloor>\<bar>x\<bar> * 10 ^ f + 1 / 2\<rfloor>"
  obtain c cs where h: "fixedDigits n f = c # cs" "isDigit c"
    using fixedDigits_head by blast
  have tf: "toFixed (Fin x) f = (if x < 0 then ''-'' else []) @ fixedDigits n f"
    using small by (simp add: n_def)
  have r: "StringToNumber ((if x < 0 then ''-'' else []) @ fixedDigits n f)
      = (if x < 0 then nneg (Fin (of_nat n / 10 ^ f)) else Fin (of_nat n / 10 ^ f))"
    using h fixedDigits_numChars fixedDigits_read by (rule signed_read)
  have s: "snd (fixedRound f x) = n"
    by (simp add: fixedRound_def n_def)
  show ?thesis
    unfolding tf r s by simp
qed

lemma Number_toFixed_finite: "\<exists>v. StringToNumber (toFixed (Fin x) f) = Fin v"
proof (cases "\<bar>x\<bar> < 10 ^ 21")
  case True
  then show ?thesis by (simp add: Number_toFixed del: toFixed.simps)
next
  case False
  define n where "n = nat \<lfloor>\<bar>x\<bar>\<rfloor>"
  obtain c cs where h: "expDigits n = c # cs" "isDigit c"
    using expDigits_head by blast
  obtain v where v: "StrUnsignedDecimalLiteral (expDigits n) = Some (Fin v)"
    using expDigits_read by blast
  have tf: "toFixed (Fin x) f = (if x < 0 then ''-'' else []) @ expDigits n"
    using False by (simp add: n_def)
  have r: "StringToNumber ((if x < 0 then ''-'' else []) @ expDigits n)
      = (if x < 0 then nneg (Fin v) else Fin v)"
    using h expDigits_numChars v by (rule signed_read)
  show ?thesis
    unfolding tf r by simp
qed

lemma toFixed_numChars: "list_all numChar (toFixed (Fin x) f)"
  using fixedDigits_numChars expDigits_numChars by (simp add: numChar_def)

section \<open>The order of the track groups\<close>

lemma trackOrder_trans: "trackOrder a b \<Longrightarrow> trackOrder b c \<Longrightarrow> trackOrder a c"
  by (auto simp: trackOrder_def)

lemma sorted_insertBy:
  assumes "\<And>a b c. R a b \<Longrightarrow> R b c \<Longrightarrow> R a c"
    and "\<And>y. y \<in> set ys \<Longrightarrow> (if nlt (Fin 0) (cmp x y) then R y x else R x y)"
    and "sorted_wrt R ys"
  shows "sorted_wrt R (insertBy cmp x ys)"
  using assms(2,3)
proof (induction ys)
  case Nil
  then show ?case by simp
next
  case (Cons y ys)
  show ?case
  proof (cases "nlt (Fin 0) (cmp x y)")
    case True
    then have yx: "R y x" using Cons.prems(1) [of y] by simp
    have "sorted_wrt R (insertBy cmp x ys)"
      using Cons by simp
    moreover have "\<forall>z \<in> set (insertBy cmp x ys). R y z"
      using yx Cons.prems(2) by (auto simp: set_insertBy)
    ultimately show ?thesis using True by simp
  next
    case False
    then have xy: "R x y" using Cons.prems(1) [of y] by simp
    have "\<forall>z \<in> set ys. R x z"
      using xy Cons.prems(2) assms(1) by auto
    with xy False Cons.prems(2) show ?thesis by simp
  qed
qed

text \<open>
  On two different keys that read as finite Numbers (or are the sentinel), the comparator
  is positive exactly when the first key belongs behind the second.
\<close>

lemma cmpTrack_order:
  assumes "x \<noteq> y"
    and "x \<noteq> blank \<longrightarrow> isFiniteN (Number (JStr x))"
    and "y \<noteq> blank \<longrightarrow> isFiniteN (Number (JStr y))"
  shows "if nlt (Fin 0) (cmpTrack x y) then trackOrder y x else trackOrder x y"
proof (cases "x = blank \<or> y = blank")
  case True
  with assms(1) show ?thesis
    by (auto simp: cmpTrack_def trackOrder_def)
next
  case False
  then obtain vx vy where "Number (JStr x) = Fin vx" "Number (JStr y) = Fin vy"
    using assms(2,3) by (cases "Number (JStr x)"; cases "Number (JStr y)") auto
  with False show ?thesis
    by (auto simp: cmpTrack_def trackOrder_def keyNumber_def nsub_def)
qed

lemma sorted_Array_sort_cmpTrack:
  assumes "distinct ks" and "\<forall>k \<in> set ks. k \<noteq> blank \<longrightarrow> isFiniteN (Number (JStr k))"
  shows "sorted_wrt trackOrder (Array_sort cmpTrack ks)"
  using assms
proof (induction ks)
  case Nil
  then show ?case by (simp add: Array_sort_def)
next
  case (Cons k ks)
  then have ih: "sorted_wrt trackOrder (Array_sort cmpTrack ks)" by simp
  have "sorted_wrt trackOrder (insertBy cmpTrack k (Array_sort cmpTrack ks))"
  proof (rule sorted_insertBy [OF trackOrder_trans _ ih])
    fix y assume "y \<in> set (Array_sort cmpTrack ks)"
    then have y: "y \<in> set ks" by (simp add: set_Array_sort)
    with Cons.prems have "k \<noteq> y" by auto
    then show "if nlt (Fin 0) (cmpTrack k y) then trackOrder y k else trackOrder k y"
      using Cons.prems(2) y by (intro cmpTrack_order) auto
  qed
  then show ?case by (simp add: Array_sort_def)
qed

text \<open>What the order means for a list without repetition.\<close>

lemma trackOrder_blank_last:
  "sorted_wrt trackOrder ks \<Longrightarrow> distinct ks \<Longrightarrow> blank \<in> set ks \<Longrightarrow> last ks = blank"
proof (induction ks)
  case Nil
  then show ?case by simp
next
  case (Cons k ks)
  show ?case
  proof (cases "ks = []")
    case True
    with Cons.prems show ?thesis by simp
  next
    case False
    have "k \<noteq> blank"
    proof
      assume "k = blank"
      moreover from False obtain z where "z \<in> set ks" by (cases ks) auto
      ultimately show False
        using Cons.prems(1,2) by (auto simp: trackOrder_def)
    qed
    with Cons False show ?thesis by simp
  qed
qed

lemma trackOrder_numeric:
  "sorted_wrt trackOrder ks \<Longrightarrow>
     sorted_wrt (\<lambda>a b. keyNumber a \<le> keyNumber b) (filter (\<lambda>k. k \<noteq> blank) ks)"
proof (induction ks)
  case Nil
  then show ?case by simp
next
  case (Cons k ks)
  then show ?case by (auto simp: trackOrder_def)
qed

section \<open>Track keys\<close>

lemma toFixed_not_blank: "toFixed (Fin x) f \<noteq> blank"
proof
  assume "toFixed (Fin x) f = blank"
  then have "list_all numChar blank"
    using toFixed_numChars [of x f] by simp
  then show False
    by (simp add: blank_def numChar_def isDigit_def)
qed

lemma trackKey_cases:
  "trackKey v = (case Number v of Fin d \<Rightarrow> if d = 0 then blank else toFixed (Fin d) 2 | _ \<Rightarrow> blank)"
  by (cases "Number v") (simp_all add: trackKey_def nstricteq_def del: toFixed.simps)

lemma trackKey_blank_iff:
  "trackKey v = blank \<longleftrightarrow> \<not> isFiniteN (Number v) \<or> Number v = Fin 0"
  using toFixed_not_blank
  by (cases "Number v") (auto simp: trackKey_cases simp del: toFixed.simps)

lemma trackKey_finite: "trackKey v \<noteq> blank \<Longrightarrow> isFiniteN (Number (JStr (trackKey v)))"
proof -
  assume nb: "trackKey v \<noteq> blank"
  then obtain d where d: "Number v = Fin d" "d \<noteq> 0"
    by (cases "Number v") (auto simp: trackKey_blank_iff)
  obtain w where "StringToNumber (toFixed (Fin d) 2) = Fin w"
    using Number_toFixed_finite by blast
  with d show ?thesis
    by (simp add: trackKey_cases del: toFixed.simps)
qed

text \<open>The Number a key reads as: the target distance rounded to hundredths.\<close>

lemma keyNumber_trackKey:
  "Number v = Fin d \<Longrightarrow> d \<noteq> 0 \<Longrightarrow> \<bar>d\<bar> < 10 ^ 21 \<Longrightarrow>
     keyNumber (trackKey v) = (if d < 0 then - 1 else 1) * of_nat (snd (fixedRound 2 d)) / 100"
  by (simp add: trackKey_cases keyNumber_def Number_toFixed del: toFixed.simps)

lemma trackGroupM_summaryRow: "trackGroupM (summaryRow k rs) = k"
  by (simp add: summaryRow_def Let_def)

lemma trackKey_examples:
  "trackKey (JNum (Fin (5001 / 1000))) = ''5.00''"
  "trackKey (JNum (Fin (4999 / 1000))) = ''5.00''"
  by code_simp+

text \<open>
  Claim C6. A run's track key is the sentinel when its target distance is not a finite
  number or is zero, and the two-decimal rendering of the distance otherwise, so \<open>5.001\<close>
  and \<open>4.999\<close> both have the key \<^verbatim>\<open>5.00\<close>; the key does not depend on the filter. The
  summary has one row per key of the surviving runs, computed from the runs with that
  key; the sentinel row, if there is one, is the last, and the other rows are in
  ascending order of the Numbers their keys read as.
\<close>

theorem C6_track_groups:
  "(filterRuns a b userRuns \<noteq> [] \<longrightarrow>
     (\<exists>out. renderPracticeSummary a b userRuns = Inr out
        \<and> (let runs = filterRuns a b userRuns;
                keys = map trackGroupM (practiceSummary out)
            in practiceSummary out
                 = map (\<lambda>k. summaryRow k (filter (\<lambda>r. trackKey (targetDistanceM r) = k) runs)) keys
               \<and> distinct keys
               \<and> set keys = (\<lambda>r. trackKey (targetDistanceM r)) ` set runs
               \<and> (blank \<in> set keys \<longrightarrow> last keys = blank)
               \<and> sorted_wrt (\<lambda>k k'. keyNumber k \<le> keyNumber k') (filter (\<lambda>k. k \<noteq> blank) keys))))
   \<and> (trackKey v = blank \<longleftrightarrow> \<not> isFiniteN (Number v) \<or> Number v = Fin 0)
   \<and> (\<forall>d. Number v = Fin d \<and> d \<noteq> 0 \<longrightarrow> trackKey v = toFixed (Fin d) 2)
   \<and> trackKey (JNum (Fin (5001 / 1000))) = ''5.00''
   \<and> trackKey (JNum (Fin (4999 / 1000))) = ''5.00''"
proof -
  have rows: "\<exists>out. renderPracticeSummary a b userRuns = Inr out
        \<and> (let runs = filterRuns a b userRuns;
                keys = map trackGroupM (practiceSummary out)
            in practiceSummary out
                 = map (\<lambda>k. summaryRow k (filter (\<lambda>r. trackKey (targetDistanceM r) = k) runs)) keys
               \<and> distinct keys
               \<and> set keys = (\<lambda>r. trackKey (targetDistanceM r)) ` set runs
               \<and> (blank \<in> set keys \<longrightarrow> last keys = blank)
               \<and> sorted_wrt (\<lambda>k k'. keyNumber k \<le> keyNumber k') (filter (\<lambda>k. k \<noteq> blank) keys))"
    if ne: "filterRuns a b userRuns \<noteq> []"
  proof -
    define runs where "runs = filterRuns a b userRuns"
    define key :: "Run \<Rightarrow> string" where "key = (\<lambda>r. trackKey (targetDistanceM r))"
    define ks where "ks = Array_sort cmpTrack (map fst (groupBy key runs))"
    define out where "out =
      \<lparr> practiceMsg = ''Showing '' @ digitsOf (length runs) @ '' run(s).'',
        practiceSummary = map (\<lambda>k. summaryRow k (filter (\<lambda>r. key r = k) runs)) ks \<rparr>"
    have r: "renderPracticeSummary a b userRuns = Inr out"
      using renderPracticeSummary_rows [OF runs_def [symmetric]] ne
      by (simp add: out_def ks_def key_def runs_def)
    have keys: "map trackGroupM (practiceSummary out) = ks"
      by (simp add: out_def comp_def trackGroupM_summaryRow)
    have dist: "distinct ks"
      by (simp add: ks_def distinct_Array_sort groupBy_keys_distinct)
    have set: "set ks = key ` set runs"
      using groupBy_keys_set [of key runs] by (simp add: ks_def set_Array_sort)
    have fin: "\<forall>k \<in> set (map fst (groupBy key runs)). k \<noteq> blank \<longrightarrow> isFiniteN (Number (JStr k))"
      using groupBy_keys_set [of key runs] trackKey_finite by (auto simp: key_def)
    have sorted: "sorted_wrt trackOrder ks"
      unfolding ks_def
      by (rule sorted_Array_sort_cmpTrack [OF groupBy_keys_distinct fin])
    have last: "blank \<in> set ks \<longrightarrow> last ks = blank"
      using trackOrder_blank_last [OF sorted dist] by simp
    have num: "sorted_wrt (\<lambda>k k'. keyNumber k \<le> keyNumber k') (filter (\<lambda>k. k \<noteq> blank) ks)"
      using sorted by (rule trackOrder_numeric)
    have rows: "practiceSummary out = map (\<lambda>k. summaryRow k (filter (\<lambda>r. key r = k) runs)) ks"
      by (simp add: out_def)
    have body: "practiceSummary out
          = map (\<lambda>k. summaryRow k (filter (\<lambda>r. trackKey (targetDistanceM r) = k) runs)) ks
        \<and> distinct ks
        \<and> set ks = (\<lambda>r. trackKey (targetDistanceM r)) ` set runs
        \<and> (blank \<in> set ks \<longrightarrow> last ks = blank)
        \<and> sorted_wrt (\<lambda>k k'. keyNumber k \<le> keyNumber k') (filter (\<lambda>k. k \<noteq> blank) ks)"
      using rows dist set last num unfolding key_def by blast
    show ?thesis
      unfolding Let_def runs_def [symmetric]
      using r body unfolding keys [symmetric] by blast
  qed
  have "\<forall>d. Number v = Fin d \<and> d \<noteq> 0 \<longrightarrow> trackKey v = toFixed (Fin d) 2"
    by (simp add: trackKey_cases del: toFixed.simps)
  with rows trackKey_blank_iff [of v] trackKey_examples show ?thesis
    by blast
qed

text \<open>
  The theorem on the five example runs without a filter: its premise holds, and the
  keys come out as \<^verbatim>\<open>5.00\<close>, \<^verbatim>\<open>9.00\<close>, \<^verbatim>\<open>10.00\<close> and the sentinel, by Number and not by
  string order, with the two runs near \<open>5\<close> in one row.
\<close>

theorem C6_track_groups_witness:
  "filterRuns [] [] trackExample \<noteq> []
   \<and> (\<exists>out. renderPracticeSummary [] [] trackExample = Inr out
        \<and> map trackGroupM (practiceSummary out) = [''5.00'', ''9.00'', ''10.00'', ''(blank)'']
        \<and> map runsCount (practiceSummary out) = [2, 1, 1, 1]
        \<and> sorted_wrt (\<lambda>k k'. keyNumber k \<le> keyNumber k')
             (filter (\<lambda>k. k \<noteq> blank) (map trackGroupM (practiceSummary out))))"
proof -
  have all: "filterRuns [] [] trackExample = trackExample"
    by (simp add: filterRuns_def trim_def)
  have ne: "filterRuns [] [] trackExample \<noteq> []"
    by (simp add: all) (simp add: trackExample_def)
  from C6_track_groups [of "[]" "[]" trackExample] ne
  obtain out where out: "renderPracticeSummary [] [] trackExample = Inr out"
    and s: "sorted_wrt (\<lambda>k k'. keyNumber k \<le> keyNumber k')
             (filter (\<lambda>k. k \<noteq> blank) (map trackGroupM (practiceSummary out)))"
    unfolding Let_def by blast
  have g: "map fst (groupBy (\<lambda>r. trackKey (targetDistanceM r)) trackExample)
      = [''10.00'', ''(blank)'', ''9.00'', ''5.00'']"
    by code_simp
  have k: "Array_sort cmpTrack [''10.00'', ''(blank)'', ''9.00'', ''5.00'']
      = [''5.00'', ''9.00'', ''10.00'', ''(blank)'']"
    by code_simp
  have n: "map (\<lambda>k. length (finiteScores (filter (\<lambda>r. trackKey (targetDistanceM r) = k) trackExample)))
        [''5.00'', ''9.00'', ''10.00'', ''(blank)'']
      = [2, 1, 1, 1]"
    by code_simp
  have c: "runsCount (summaryRow k rs) = length (finiteScores rs)" for k rs
    by (simp add: summaryRow_def Let_def)
  from renderPracticeSummary_rows [OF all] out
  have "practiceSummary out
      = map (\<lambda>k. summaryRow k (filter (\<lambda>r. trackKey (targetDistanceM r) = k) trackExample))
          [''5.00'', ''9.00'', ''10.00'', ''(blank)'']"
    using ne by (simp add: all g k)
  then have m: "map trackGroupM (practiceSummary out) = [''5.00'', ''9.00'', ''10.00'', ''(blank)'']"
    and r: "map runsCount (practiceSummary out) = [2, 1, 1, 1]"
    using n by (simp_all add: trackGroupM_summaryRow c)
  show ?thesis
    by (intro conjI exI [of _ out]) (rule ne out m r s)+
qed

section \<open>Ranking the setups\<close>

lemma finiteScores_finite: "list_all isFiniteN (finiteScores rs)"
  by (simp add: finiteScores_def list_all_iff)

lemma mean_Fin:
  assumes "list_all isFiniteN ss" and "ss \<noteq> []"
  shows "mean ss = Fin (sum_list (map fval ss) / of_nat (length ss))"
  using assms(2) by (simp add: mean_def foldl_nadd_Fin [OF assms(1)])

lemma foldl_min2_Fin:
  "list_all isFiniteN xs \<Longrightarrow> foldl min2 (Fin a) xs = Fin (Min (insert a (fval ` set xs)))"
proof (induction xs arbitrary: a)
  case Nil
  then show ?case by simp
next
  case (Cons x xs)
  then obtain b where x: "x = Fin b" by (cases x) simp_all
  have "min2 (Fin a) (Fin b) = Fin (min a b)"
    by (simp add: min_def)
  moreover have "Min (insert (min a b) (fval ` set xs)) = Min (insert a (insert b (fval ` set xs)))"
    by (cases "set xs = {}") (simp_all add: min.assoc)
  ultimately show ?case
    using Cons x by simp
qed

lemma Math_min_Fin:
  assumes "list_all isFiniteN ss" and "ss \<noteq> []"
  shows "Math_min ss = Fin (Min (fval ` set ss))"
proof -
  obtain x xs where ss: "ss = x # xs" using assms(2) by (cases ss) auto
  with assms(1) obtain b where x: "x = Fin b" by (cases x) simp_all
  have "Math_min ss = foldl min2 (Fin b) xs"
    by (simp add: Math_min_def ss x)
  also have "\<dots> = Fin (Min (insert b (fval ` set xs)))"
    using assms(1) ss by (intro foldl_min2_Fin) simp
  finally show ?thesis by (simp add: ss x)
qed

text \<open>The setups of a track group stand in the order of their first runs.\<close>

lemma groupBy_order: "map fst (groupBy key runs) = rev (remdups (rev (map key runs)))"
proof (induction runs rule: rev_induct)
  case Nil
  then show ?case by (simp add: groupBy_Nil)
next
  case (snoc r runs)
  then show ?case
    by (simp add: groupBy_snoc groupPush_keys)
qed

lemma digitChar_table:
  "digitChar 0 = CHR ''0''" "digitChar 1 = CHR ''1''" "digitChar 2 = CHR ''2''"
  "digitChar 3 = CHR ''3''" "digitChar 4 = CHR ''4''" "digitChar 5 = CHR ''5''"
  "digitChar 6 = CHR ''6''" "digitChar 7 = CHR ''7''" "digitChar 8 = CHR ''8''"
  "digitChar 9 = CHR ''9''" "digitChar (Suc 0) = CHR ''1''" "digitChar (Suc (Suc 0)) = CHR ''2''"
  by code_simp+

lemma digitsOf_small: "n < 10 \<Longrightarrow> digitsOf n = [digitChar n]"
  by (subst digitsOf.simps) simp

lemma digitsOf_big: "10 \<le> n \<Longrightarrow> digitsOf n = digitsOf (n div 10) @ [digitChar (n mod 10)]"
  by (subst digitsOf.simps) simp

text \<open>Rules that print a numeral.\<close>

lemmas digits_eval = digitsOf_small digitsOf_big digitChar_table fixedDigits_def Let_def

lemma toFixed_examples:
  "toFixed (Fin 650) 2 = ''650.00''"
  "toFixed (Fin 600) 2 = ''600.00''"
  "toFixed (Fin 700) 2 = ''700.00''"
  "digitsOf (Suc (Suc 0)) = ''2''"
  by (simp_all add: digits_eval)

lemma round2_integer: "round2 (Fin (of_int i)) = Fin (of_int i)"
  by (simp add: round2_def)

lemma rankExample_groups:
  "groupBy setupKey rankExample =
     [(setupKey (savedRun 5 12 3 20 600), [savedRun 5 12 3 20 600, savedRun 5 12 3 20 800]),
      (setupKey (savedRun 5 13 3 20 620), [savedRun 5 13 3 20 620, savedRun 5 13 3 20 680])]"
  by code_simp

lemma tieExample_groups:
  "groupBy setupKey tieExample =
     [(setupKey (savedRun 5 12 3 20 600), [savedRun 5 12 3 20 600, savedRun 5 12 3 20 800]),
      (setupKey (savedRun 5 13 3 20 620), [savedRun 5 13 3 20 800, savedRun 5 13 3 20 600])]"
  by code_simp

lemma finiteScores_saved:
  "finiteScores [savedRun d a t w s, savedRun d' a' t' w' s'] = [Fin s, Fin s']"
  by (simp add: finiteScores_def savedRun_def)

section \<open>Setup keys\<close>

lemma setupKey_parts:
  "setupKey r = toFixed (setupAngle r) 1 @ CHR 0xB0 # '' | '' @ toFixed (setupTurns r) 2
     @ CHR '' '' # ''turns | '' @ toFixed (setupWinds r) 0 @ CHR '' '' # ''winds''"
  by (simp add: setupKey_def setupAngle_def setupTurns_def setupWinds_def Let_def
      del: toFixed.simps)

lemma numChar_not_separator: "numChar c \<Longrightarrow> c \<noteq> CHR 0xB0 \<and> c \<noteq> CHR '' ''"
  by (auto simp: numChar_def isDigit_def)

lemma toFixed_no_separator: "CHR 0xB0 \<notin> set (toFixed n f) \<and> CHR '' '' \<notin> set (toFixed n f)"
proof (cases n)
  case (Fin x)
  have "\<forall>c \<in> set (toFixed (Fin x) f). numChar c"
    using toFixed_numChars [of x f] by (simp add: list_all_iff del: toFixed.simps)
  with Fin show ?thesis
    using numChar_not_separator by blast
qed simp_all

lemma split_at_separator:
  "c \<notin> set a \<Longrightarrow> c \<notin> set a' \<Longrightarrow> a @ c # r = a' @ c # r' \<longleftrightarrow> a = a' \<and> r = r'"
proof (induction a arbitrary: a')
  case Nil
  then show ?case by (cases a') auto
next
  case (Cons x a)
  then show ?case by (cases a') auto
qed

text \<open>Two keys are equal exactly when their three printed parts are.\<close>

lemma setupKey_eq_iff:
  "setupKey r = setupKey r' \<longleftrightarrow>
     toFixed (setupAngle r) 1 = toFixed (setupAngle r') 1
     \<and> toFixed (setupTurns r) 2 = toFixed (setupTurns r') 2
     \<and> toFixed (setupWinds r) 0 = toFixed (setupWinds r') 0"
proof -
  have a: "CHR 0xB0 \<notin> set (toFixed (setupAngle r) 1)" "CHR 0xB0 \<notin> set (toFixed (setupAngle r') 1)"
    and t: "CHR '' '' \<notin> set (toFixed (setupTurns r) 2)" "CHR '' '' \<notin> set (toFixed (setupTurns r') 2)"
    and w: "CHR '' '' \<notin> set (toFixed (setupWinds r) 0)" "CHR '' '' \<notin> set (toFixed (setupWinds r') 0)"
    using toFixed_no_separator by blast+
  show ?thesis
    unfolding setupKey_parts split_at_separator [OF a] append_Cons append_Nil list.inject
      split_at_separator [OF t] append_same_eq split_at_separator [OF w]
    by auto
qed

text \<open>
  Two finite values below \<open>10\<^sup>2\<^sup>1\<close> print alike exactly when they have the same sign and
  the same nearest integer.
\<close>

lemma toFixed_small:
  "\<bar>x\<bar> < 10 ^ 21 \<Longrightarrow>
     toFixed (Fin x) f = (if fst (fixedRound f x) then ''-'' else []) @ fixedDigits (snd (fixedRound f x)) f"
  by (simp add: fixedRound_def)

lemma fixedDigits_inj: "fixedDigits n f = fixedDigits m f \<Longrightarrow> n = m"
proof -
  assume "fixedDigits n f = fixedDigits m f"
  then have "StrUnsignedDecimalLiteral (fixedDigits n f) = StrUnsignedDecimalLiteral (fixedDigits m f)"
    by simp
  then have "(of_nat n :: real) / 10 ^ f = of_nat m / 10 ^ f"
    by (simp add: fixedDigits_read)
  then show ?thesis by simp
qed

lemma toFixed_eq_iff:
  assumes "\<bar>x\<bar> < 10 ^ 21" "\<bar>y\<bar> < 10 ^ 21"
  shows "toFixed (Fin x) f = toFixed (Fin y) f \<longleftrightarrow> fixedRound f x = fixedRound f y"
proof -
  note tx = toFixed_small [OF assms(1), of f] and ty = toFixed_small [OF assms(2), of f]
  show ?thesis
  proof
    assume "fixedRound f x = fixedRound f y"
    then show "toFixed (Fin x) f = toFixed (Fin y) f"
      unfolding tx ty by simp
  next
    assume eq: "toFixed (Fin x) f = toFixed (Fin y) f"
    obtain c cs where hx: "fixedDigits (snd (fixedRound f x)) f = c # cs" "isDigit c"
      using fixedDigits_head by blast
    obtain d ds where hy: "fixedDigits (snd (fixedRound f y)) f = d # ds" "isDigit d"
      using fixedDigits_head by blast
    have nm: "\<not> isDigit (CHR ''-'')" by (simp add: isDigit_def)
    from eq have e: "(if fst (fixedRound f x) then ''-'' else []) @ fixedDigits (snd (fixedRound f x)) f
        = (if fst (fixedRound f y) then ''-'' else []) @ fixedDigits (snd (fixedRound f y)) f"
      unfolding tx ty .
    have sign: "fst (fixedRound f x) = fst (fixedRound f y)"
      using e hx hy nm by (auto split: if_splits)
    with e have "fixedDigits (snd (fixedRound f x)) f = fixedDigits (snd (fixedRound f y)) f"
      by simp
    then have "snd (fixedRound f x) = snd (fixedRound f y)"
      by (rule fixedDigits_inj)
    with sign show "fixedRound f x = fixedRound f y"
      by (simp add: prod_eq_iff)
  qed
qed

lemma setup_saved:
  "setupAngle (savedRun d a t w s) = Fin a"
  "setupTurns (savedRun d a t w s) = Fin t"
  "setupWinds (savedRun d a t w s) = Fin w"
  by (simp_all add: setupAngle_def setupTurns_def setupWinds_def savedRun_def js_or_def)

text \<open>
  Claim C7 as stated fails on its own example: \<open>12.04\<close> prints as \<^verbatim>\<open>12.0\<close> and \<open>12.06\<close> as
  \<^verbatim>\<open>12.1\<close>, so the two runs have different setup keys.
\<close>

theorem C7_setupKey_counterexample:
  "setupKey (savedRun 5 (1204 / 100) 3 20 700) \<noteq> setupKey (savedRun 5 (1206 / 100) 3 20 700)
   \<and> toFixed (setupAngle (savedRun 5 (1204 / 100) 3 20 700)) 1 = ''12.0''
   \<and> toFixed (setupAngle (savedRun 5 (1206 / 100) 3 20 700)) 1 = ''12.1''"
  by (simp add: setupKey_eq_iff setup_saved digits_eval)

text \<open>
  Claim C7, amended. Two runs have the same setup key exactly when the renderings of
  their car angle, dial turns and winds (a missing or zero value read as \<open>0\<close>) with \<open>1\<close>,
  \<open>2\<close> and \<open>0\<close> decimals agree; for finite values below \<open>10\<^sup>2\<^sup>1\<close> two renderings agree
  exactly when the values have the same sign and the same nearest integer to
  \<open>|value| \<times> 10\<^sup>f\<close>, a tie going up. So \<open>12.04\<close> and \<open>12.06\<close> have different keys, \<open>12.04\<close>
  and \<open>11.96\<close> the same key, \<open>12.04\<close> and \<open>12.15\<close> different keys.
\<close>

theorem C7_setupKey_equal:
  "(setupKey r = setupKey r' \<longleftrightarrow>
      toFixed (setupAngle r) 1 = toFixed (setupAngle r') 1
      \<and> toFixed (setupTurns r) 2 = toFixed (setupTurns r') 2
      \<and> toFixed (setupWinds r) 0 = toFixed (setupWinds r') 0)
   \<and> (\<bar>x\<bar> < 10 ^ 21 \<and> \<bar>y\<bar> < 10 ^ 21
        \<longrightarrow> (toFixed (Fin x) f = toFixed (Fin y) f \<longleftrightarrow> fixedRound f x = fixedRound f y))
   \<and> setupKey (savedRun 5 (1204 / 100) 3 20 700) \<noteq> setupKey (savedRun 5 (1206 / 100) 3 20 700)
   \<and> setupKey (savedRun 5 (1204 / 100) 3 20 700) = setupKey (savedRun 5 (1196 / 100) 3 20 650)
   \<and> setupKey (savedRun 5 (1204 / 100) 3 20 700) \<noteq> setupKey (savedRun 5 (1215 / 100) 3 20 700)"
proof -
  have "setupKey (savedRun 5 (1204 / 100) 3 20 700) \<noteq> setupKey (savedRun 5 (1206 / 100) 3 20 700)"
    "setupKey (savedRun 5 (1204 / 100) 3 20 700) = setupKey (savedRun 5 (1196 / 100) 3 20 650)"
    "setupKey (savedRun 5 (1204 / 100) 3 20 700) \<noteq> setupKey (savedRun 5 (1215 / 100) 3 20 700)"
    by (simp_all add: setupKey_eq_iff setup_saved digits_eval)
  with setupKey_eq_iff [of r r'] toFixed_eq_iff [of x y f] show ?thesis
    by blast
qed

text \<open>
  The theorem at car angles \<open>12.04\<close> and \<open>11.96\<close>: both are positive and both round to
  \<open>120\<close> tenths, so they print alike.
\<close>

theorem C7_setupKey_equal_witness:
  "\<bar>1204 / 100 :: real\<bar> < 10 ^ 21 \<and> \<bar>1196 / 100 :: real\<bar> < 10 ^ 21
   \<and> fixedRound 1 (1204 / 100) = (False, 120) \<and> fixedRound 1 (1196 / 100) = (False, 120)
   \<and> toFixed (Fin (1204 / 100)) 1 = toFixed (Fin (1196 / 100)) 1"
proof -
  have b: "\<bar>1204 / 100 :: real\<bar> < 10 ^ 21 \<and> \<bar>1196 / 100 :: real\<bar> < 10 ^ 21"
    by simp
  have r: "fixedRound 1 (1204 / 100) = (False, 120)" "fixedRound 1 (1196 / 100) = (False, 120)"
    by (simp_all add: fixedRound_def)
  from C7_setupKey_equal [of _ _ "1204 / 100" "1196 / 100" 1] b r
  have "toFixed (Fin (1204 / 100)) 1 = toFixed (Fin (1196 / 100)) 1"
    by (simp del: toFixed.simps)
  with b r show ?thesis by (simp del: toFixed.simps)
qed

section \<open>Binary64 rounding\<close>

lemma halvings_small: "x < 2 \<Longrightarrow> halvings x = 0"
  by (subst halvings.simps) simp

lemma halvings_big: "2 \<le> x \<Longrightarrow> halvings x = Suc (halvings (x / 2))"
  by (subst halvings.simps) simp

lemma doublings_stop: "1 \<le> x \<or> x \<le> 0 \<Longrightarrow> doublings x = 0"
  by (subst doublings.simps) simp

lemma doublings_go: "0 < x \<Longrightarrow> x < 1 \<Longrightarrow> doublings x = Suc (doublings (2 * x))"
  by (subst doublings.simps) simp

text \<open>Rules that round a numeral, and rules that read one from text.\<close>

lemmas rnd_eval = halvings_small halvings_big doublings_stop doublings_go bexp_def pow2_def
  roundEven_def ulp_def rnd64_def Let_def fadd_def fsub_def fmul_def fdiv_def

lemmas parse_eval = StringToNumber_def trim_def isWhiteSpace_def NonDecimalIntegerLiteral_def
  StrDecimalLiteral_def StrUnsignedDecimalLiteral_def isDigit_def ExponentPart_def digitsVal_def
  digitVal_def pow10_def

lemma halvings_bounds: "1 \<le> x \<Longrightarrow> 2 ^ halvings x \<le> x \<and> x < 2 ^ Suc (halvings x)"
proof (induction x rule: halvings.induct)
  case (1 x)
  show ?case
  proof (cases "x < 2")
    case True
    with 1 show ?thesis by (simp add: halvings_small)
  next
    case False
    then have "1 \<le> x / 2" by simp
    with 1 False have "2 ^ halvings (x / 2) \<le> x / 2 \<and> x / 2 < 2 ^ Suc (halvings (x / 2))"
      by simp
    with False show ?thesis by (simp add: halvings_big)
  qed
qed

lemma doublings_bounds:
  "0 < x \<Longrightarrow> x < 1 \<Longrightarrow> 1 \<le> x * 2 ^ doublings x \<and> x * 2 ^ doublings x < 2"
proof (induction x rule: doublings.induct)
  case (1 x)
  show ?case
  proof (cases "2 * x < 1")
    case True
    with 1 have "1 \<le> 2 * x * 2 ^ doublings (2 * x) \<and> 2 * x * 2 ^ doublings (2 * x) < 2"
      by simp
    with 1 show ?thesis by (simp add: doublings_go mult.assoc mult.left_commute)
  next
    case False
    then have "doublings (2 * x) = 0" by (simp add: doublings_stop)
    with 1 False show ?thesis by (simp add: doublings_go)
  qed
qed

lemma pow2_neg: "pow2 (- int k) = 1 / 2 ^ k"
  by (simp add: pow2_def)

lemma pow2_pos: "pow2 (int k) = 2 ^ k"
  by (simp add: pow2_def)

lemma rnd64_not_NaN: "rnd64 x \<noteq> NaN"
  by (simp add: rnd64_def Let_def)

lemma roundEven_of_int: "roundEven (of_int k) = k"
  by (simp add: roundEven_def)

text \<open>An integer of at most 53 bits is a binary64 value.\<close>

lemma rnd64_of_int:
  assumes "\<bar>n\<bar> \<le> 2 ^ 53"
  shows "rnd64 (of_int n) = Fin (of_int n)"
proof (cases "n = 0")
  case True
  then show ?thesis by (simp add: rnd64_def)
next
  case False
  define x :: real where "x = of_int n"
  define e where "e = halvings \<bar>x\<bar>"
  have x1: "1 \<le> \<bar>x\<bar>" using False by (simp add: x_def)
  have xb: "\<bar>x\<bar> \<le> 2 ^ 53"
  proof -
    have "\<bar>x\<bar> = of_int \<bar>n\<bar>" by (simp add: x_def)
    also have "\<dots> \<le> of_int (2 ^ 53)" using assms by (simp only: of_int_le_iff)
    finally show ?thesis by simp
  qed
  have b: "2 ^ e \<le> \<bar>x\<bar>" "\<bar>x\<bar> < 2 ^ Suc e"
    using halvings_bounds [OF x1] by (simp_all add: e_def)
  have "(2::real) ^ e \<le> 2 ^ 53" using b(1) xb by linarith
  then have e53: "e \<le> 53" by (rule power_le_imp_le_exp [rotated]) simp
  have be: "bexp x = int e" using x1 by (simp add: bexp_def e_def)
  have u: "ulp x = pow2 (int e - 52)"
    by (simp add: ulp_def be)
  have "\<exists>k. x / ulp x = of_int k"
  proof (cases "e \<le> 52")
    case True
    then have "int e - 52 = - int (52 - e)" by simp
    then have "ulp x = 1 / 2 ^ (52 - e)"
      unfolding u by (simp only: pow2_neg)
    then have "x / ulp x = of_int (n * 2 ^ (52 - e))"
      by (simp add: x_def)
    then show ?thesis by blast
  next
    case False
    with e53 have e: "e = 53" by simp
    then have "\<bar>x\<bar> = 2 ^ 53" using b(1) xb by simp
    then have "x = 2 ^ 53 \<or> x = - (2 ^ 53)" by linarith
    moreover have "ulp x = 2" by (simp add: u e pow2_def)
    ultimately have "x / ulp x = of_int (2 ^ 52) \<or> x / ulp x = of_int (- (2 ^ 52))"
      by auto
    then show ?thesis by blast
  qed
  then obtain k where k: "x / ulp x = of_int k" by blast
  have up: "ulp x \<noteq> 0" by (simp add: u pow2_def)
  have "roundEven (x / ulp x) = k" by (simp only: k roundEven_of_int)
  then have "of_int (roundEven (x / ulp x)) * ulp x = x / ulp x * ulp x" by (simp only: k)
  also have "\<dots> = x" using up by simp
  finally have y: "of_int (roundEven (x / ulp x)) * ulp x = x" .
  have "\<not> 2 ^ 1024 \<le> \<bar>x\<bar>" using xb by simp
  with False y show ?thesis
    unfolding rnd64_def Let_def x_def [symmetric] by (simp add: x_def)
qed

lemma rnd64_numeral:
  "numeral k \<le> (2::int) ^ 53 \<Longrightarrow> rnd64 (numeral k) = Fin (numeral k)"
  "numeral k \<le> (2::int) ^ 53 \<Longrightarrow> rnd64 (- numeral k) = Fin (- numeral k)"
  "rnd64 0 = Fin 0" "rnd64 1 = Fin 1"
  using rnd64_of_int [of "numeral k"] rnd64_of_int [of "- numeral k"] rnd64_of_int [of 1]
  by (simp_all add: rnd64_def)

lemma fadd_int:
  "\<bar>i + j\<bar> \<le> 2 ^ 53 \<Longrightarrow> fadd (Fin (of_int i)) (Fin (of_int j)) = Fin (of_int (i + j))"
  using rnd64_of_int [of "i + j"] by (simp add: fadd_def)

lemma fmul_int:
  "\<bar>i * j\<bar> \<le> 2 ^ 53 \<Longrightarrow> fmul (Fin (of_int i)) (Fin (of_int j)) = Fin (of_int (i * j))"
  using rnd64_of_int [of "i * j"] by (simp add: fmul_def)

lemma round2_64_int:
  assumes "\<bar>i\<bar> \<le> 2 ^ 46"
  shows "round2_64 (Fin (of_int i)) = Fin (of_int i)"
proof -
  have "\<bar>i * 100\<bar> \<le> 2 ^ 53" using assms by (simp add: abs_mult)
  then have m: "fmul (Fin (of_int i)) (Fin (of_int 100)) = Fin (of_int (i * 100))"
    by (rule fmul_int)
  have r: "Math_round (Fin (of_int (i * 100))) = Fin (of_int (i * 100))"
    by simp
  have "\<bar>i\<bar> \<le> 2 ^ 53" using assms by simp
  then have d: "fdiv (Fin (of_int (i * 100))) (Fin 100) = Fin (of_int i)"
    using rnd64_of_int [of i] by (simp add: fdiv_def)
  from m show ?thesis
    unfolding round2_64_def by (simp only: of_int_numeral r d)
qed

text \<open>The rounding error below \<open>2\<^sup>3\<^sup>0\<close>: at most half a unit in the last place.\<close>

lemma roundEven_near: "\<bar>of_int (roundEven q) - q\<bar> \<le> 1 / 2"
proof -
  have "of_int \<lfloor>q\<rfloor> \<le> q" "q < of_int \<lfloor>q\<rfloor> + 1" by linarith+
  then show ?thesis
    by (auto simp: roundEven_def Let_def)
qed

lemma pow2_powi: "pow2 e = 2 powi e"
  by (simp add: pow2_def power_int_def power_one_over)

lemma pow2_mono: "a \<le> b \<Longrightarrow> pow2 a \<le> pow2 b"
  by (simp add: pow2_powi power_int_increasing)

lemma pow2_pos_gt: "0 < pow2 e"
  by (simp add: pow2_def)

lemma bexp_le:
  assumes "\<bar>x\<bar> \<le> 2 ^ n"
  shows "bexp x \<le> int n"
proof (cases "1 \<le> \<bar>x\<bar>")
  case True
  have "(2::real) ^ halvings \<bar>x\<bar> \<le> \<bar>x\<bar>" using halvings_bounds [OF True] by simp
  with assms have "(2::real) ^ halvings \<bar>x\<bar> \<le> 2 ^ n" by linarith
  then have "halvings \<bar>x\<bar> \<le> n" by (rule power_le_imp_le_exp [rotated]) simp
  with True show ?thesis by (simp add: bexp_def)
next
  case False
  then show ?thesis by (simp add: bexp_def)
qed

lemma rnd64_near:
  assumes "\<bar>x\<bar> \<le> 2 ^ 30"
  shows "\<exists>y. rnd64 x = Fin y \<and> \<bar>y - x\<bar> \<le> 1 / 2 ^ 23"
proof (cases "x = 0")
  case True
  then show ?thesis by (simp add: rnd64_def)
next
  case False
  define u where "u = ulp x"
  define k where "k = roundEven (x / u)"
  have "bexp x \<le> 30" using bexp_le [OF assms] by simp
  then have "max (bexp x) (- 1022) - 52 \<le> - 22" by simp
  then have "u \<le> pow2 (- 22)" unfolding u_def ulp_def by (rule pow2_mono)
  then have u: "u \<le> 1 / 2 ^ 22" by (simp add: pow2_def)
  have up: "0 < u" by (simp add: u_def ulp_def pow2_pos_gt)
  have "\<bar>of_int k - x / u\<bar> \<le> 1 / 2" unfolding k_def by (rule roundEven_near)
  then have "\<bar>of_int k - x / u\<bar> * u \<le> 1 / 2 * u" using up by (simp only: mult_le_cancel_right_pos)
  moreover have "\<bar>of_int k - x / u\<bar> * u = \<bar>of_int k * u - x\<bar>"
  proof -
    have "\<bar>of_int k * u - x\<bar> = \<bar>(of_int k - x / u) * u\<bar>"
      using up by (simp add: left_diff_distrib)
    also have "\<dots> = \<bar>of_int k - x / u\<bar> * u"
      using up by (simp add: abs_mult)
    finally show ?thesis by simp
  qed
  ultimately have near: "\<bar>of_int k * u - x\<bar> \<le> 1 / 2 ^ 23" using u by simp
  then have "\<bar>of_int k * u\<bar> \<le> 2 ^ 30 + 1 / 2 ^ 23" using assms by linarith
  then have "\<not> 2 ^ 1024 \<le> \<bar>of_int k * u\<bar>" by simp
  then have "rnd64 x = Fin (of_int k * u)"
    using False by (simp add: rnd64_def Let_def k_def u_def)
  with near show ?thesis by blast
qed

lemma fadd_near:
  "\<bar>a + b\<bar> \<le> 2 ^ 30 \<Longrightarrow> \<exists>c. fadd (Fin a) (Fin b) = Fin c \<and> \<bar>c - (a + b)\<bar> \<le> 1 / 2 ^ 23"
  using rnd64_near [of "a + b"] by (simp add: fadd_def)

lemma fmul_near:
  "\<bar>a * b\<bar> \<le> 2 ^ 30 \<Longrightarrow> \<exists>c. fmul (Fin a) (Fin b) = Fin c \<and> \<bar>c - a * b\<bar> \<le> 1 / 2 ^ 23"
  using rnd64_near [of "a * b"] by (simp add: fmul_def)

lemma round2_64_near:
  assumes "\<bar>s\<bar> \<le> 10000000"
  shows "\<exists>v. round2_64 (Fin s) = Fin v \<and> \<bar>v - s\<bar> \<le> 1 / 200 + 2 / 2 ^ 23"
proof -
  have "\<bar>s * 100\<bar> \<le> 2 ^ 30" using assms by simp
  then obtain p where p: "fmul (Fin s) (Fin 100) = Fin p" "\<bar>p - s * 100\<bar> \<le> 1 / 2 ^ 23"
    using fmul_near by blast
  define k where "k = \<lfloor>p + 1 / 2\<rfloor>"
  have k: "\<bar>of_int k - p\<bar> \<le> 1 / 2" unfolding k_def by linarith
  have p': "\<bar>p - s * 100\<bar> \<le> 1" using p(2) by simp
  have "\<bar>real_of_int k\<bar> \<le> 1000000002" using k p' assms by linarith
  then have "\<bar>real_of_int k / 100\<bar> \<le> 2 ^ 30" by simp
  then obtain v where v: "rnd64 (of_int k / 100) = Fin v" "\<bar>v - of_int k / 100\<bar> \<le> 1 / 2 ^ 23"
    using rnd64_near by blast
  have "round2_64 (Fin s) = Fin v"
    by (simp add: round2_64_def p(1) k_def [symmetric] fdiv_def v(1))
  moreover have "\<bar>v - s\<bar> \<le> 1 / 200 + 2 / 2 ^ 23"
  proof -
    have a: "\<bar>v - of_int k / 100\<bar> \<le> 1 / 8388608" using v(2) by simp
    have b: "\<bar>p - s * 100\<bar> \<le> 1 / 8388608" using p(2) by simp
    have "\<bar>v - s\<bar> \<le> 1 / 200 + 2 / 8388608"
      using a b k unfolding abs_le_iff by linarith
    then show ?thesis by simp
  qed
  ultimately show ?thesis by blast
qed

lemma rnd64_Ints: "x \<in> \<int> \<Longrightarrow> \<bar>x\<bar> \<le> 2 ^ 53 \<Longrightarrow> rnd64 x = Fin x"
proof -
  assume "x \<in> \<int>" and b: "\<bar>x\<bar> \<le> 2 ^ 53"
  then obtain n where x: "x = of_int n" by (auto elim: Ints_cases)
  have "real_of_int \<bar>n\<bar> \<le> real_of_int (2 ^ 53)" using b by (simp add: x)
  then have "\<bar>n\<bar> \<le> 2 ^ 53" by (simp only: of_int_le_iff)
  then show ?thesis unfolding x by (rule rnd64_of_int)
qed

lemma fadd_Ints:
  "a \<in> \<int> \<Longrightarrow> b \<in> \<int> \<Longrightarrow> \<bar>a + b\<bar> \<le> 2 ^ 53 \<Longrightarrow> fadd (Fin a) (Fin b) = Fin (a + b)"
  using rnd64_Ints [of "a + b"] by (simp add: fadd_def)

lemma fmul_Ints:
  "a \<in> \<int> \<Longrightarrow> b \<in> \<int> \<Longrightarrow> \<bar>a * b\<bar> \<le> 2 ^ 53 \<Longrightarrow> fmul (Fin a) (Fin b) = Fin (a * b)"
  using rnd64_Ints [of "a * b"] by (simp add: fmul_def)

lemma round2_64_Ints:
  assumes "x \<in> \<int>" and "\<bar>x\<bar> \<le> 2 ^ 46"
  shows "round2_64 (Fin x) = Fin x"
proof -
  obtain i where x: "x = of_int i" using assms(1) by (auto elim: Ints_cases)
  have "real_of_int \<bar>i\<bar> \<le> real_of_int (2 ^ 46)" using assms(2) by (simp add: x)
  then have "\<bar>i\<bar> \<le> 2 ^ 46" by (simp only: of_int_le_iff)
  then show ?thesis unfolding x by (rule round2_64_int)
qed

section \<open>The score in binary64\<close>

lemma num64_Fin: "\<exists>d. num64 v = Fin d"
  by (cases "Number64 v") (simp_all add: num64_def)

lemma distanceUsed64_Fin: "\<exists>d. distanceUsed64 inp = Fin d"
  using num64_Fin [of "vehicleDistanceCm inp"] by (simp add: distanceUsed64_def)

lemma computeScore64_total_eq: "total (computeScore64 inp) = round2_64 (scoreSum64 inp)"
  by (simp add: computeScore64_def scoreSum64_def distanceUsed64_def timeUsed64_def Let_def)

text \<open>Whole numbers: every step of the sum is exact.\<close>

lemma computeScore64_total_whole:
  assumes d: "distanceUsed64 inp = Fin d" "d \<in> \<int>" "\<bar>d\<bar> \<le> 10 ^ 9"
    and t: "timeUsed64 inp = Fin t" "t \<in> \<int>" "\<bar>t\<bar> \<le> 10 ^ 9"
  shows "total (computeScore64 inp) = Fin (exactSum inp)"
proof -
  define b :: real where "b = (if truthy (bucketBonus inp) then - 100 else 0)"
  define c :: real where "c = (if truthy (competitionViolationPoints inp) then 150 else 0)"
  define k :: real where "k = (if truthy (constructionViolationPoints inp) then 300 else 0)"
  have fl: "(if truthy (bucketBonus inp) then Fin (- 100) else Fin 0) = Fin b"
    "(if truthy (competitionViolationPoints inp) then Fin 150 else Fin 0) = Fin c"
    "(if truthy (constructionViolationPoints inp) then Fin 300 else Fin 0) = Fin k"
    by (simp_all add: b_def c_def k_def)
  have i: "b \<in> \<int>" "c \<in> \<int>" "k \<in> \<int>" by (simp_all add: b_def c_def k_def)
  have bd: "\<bar>b\<bar> \<le> 100" "0 \<le> c" "c \<le> 150" "0 \<le> k" "k \<le> 300"
    by (simp_all add: b_def c_def k_def)
  have d': "\<bar>d\<bar> \<le> 1000000000" and t': "\<bar>t\<bar> \<le> 1000000000" using d(3) t(3) by simp_all
  have m: "fmul (Fin 2) (Fin d) = Fin (2 * d)"
    using d(2) d' by (intro fmul_Ints) simp_all
  have a1: "fadd (Fin 100) (Fin (2 * d)) = Fin (100 + 2 * d)"
    using d(2) d' by (intro fadd_Ints) simp_all
  have a2: "fadd (Fin (100 + 2 * d)) (Fin t) = Fin (100 + 2 * d + t)"
    using d(2) t(2) d' t' by (intro fadd_Ints) simp_all
  have a3: "fadd (Fin (100 + 2 * d + t)) (Fin b) = Fin (100 + 2 * d + t + b)"
    using d(2) t(2) i d' t' bd by (intro fadd_Ints) simp_all
  have a4: "fadd (Fin (100 + 2 * d + t + b)) (Fin c) = Fin (100 + 2 * d + t + b + c)"
    using d(2) t(2) i d' t' bd by (intro fadd_Ints) simp_all
  have a5: "fadd (Fin (100 + 2 * d + t + b + c)) (Fin k) = Fin (100 + 2 * d + t + b + c + k)"
    using d(2) t(2) i d' t' bd by (intro fadd_Ints) simp_all
  have s: "scoreSum64 inp = Fin (100 + 2 * d + t + b + c + k)"
    unfolding scoreSum64_def d(1) t(1) fl m a1 a2 a3 a4 a5 ..
  have e: "exactSum inp = 100 + 2 * d + t + b + c + k"
    by (simp add: exactSum_def d(1) t(1) b_def c_def k_def)
  have "round2_64 (Fin (100 + 2 * d + t + b + c + k)) = Fin (100 + 2 * d + t + b + c + k)"
    using d(2) t(2) i d' t' bd by (intro round2_64_Ints) simp_all
  then show ?thesis
    by (simp only: computeScore64_total_eq s e)
qed

text \<open>Any distance and time average up to a million: the total is within half a cent of the sum, up to the rounding of eight operations.\<close>

lemma computeScore64_total_near:
  assumes d: "distanceUsed64 inp = Fin d" "\<bar>d\<bar> \<le> 10 ^ 6"
    and t: "timeUsed64 inp = Fin t" "\<bar>t\<bar> \<le> 10 ^ 6"
  shows "\<exists>v. total (computeScore64 inp) = Fin v \<and> \<bar>v - exactSum inp\<bar> \<le> 5001 / 10 ^ 6"
proof -
  define b :: real where "b = (if truthy (bucketBonus inp) then - 100 else 0)"
  define c :: real where "c = (if truthy (competitionViolationPoints inp) then 150 else 0)"
  define k :: real where "k = (if truthy (constructionViolationPoints inp) then 300 else 0)"
  have fl: "(if truthy (bucketBonus inp) then Fin (- 100) else Fin 0) = Fin b"
    "(if truthy (competitionViolationPoints inp) then Fin 150 else Fin 0) = Fin c"
    "(if truthy (constructionViolationPoints inp) then Fin 300 else Fin 0) = Fin k"
    by (simp_all add: b_def c_def k_def)
  have bd: "- 100 \<le> b" "b \<le> 0" "0 \<le> c" "c \<le> 150" "0 \<le> k" "k \<le> 300"
    by (simp_all add: b_def c_def k_def)
  have d': "- 1000000 \<le> d" "d \<le> 1000000" and t': "- 1000000 \<le> t" "t \<le> 1000000"
    using d(2) t(2) by simp_all
  have big: "(2::real) ^ 30 = 1073741824" by simp
  have "\<bar>2 * d\<bar> \<le> 2 ^ 30" unfolding big abs_le_iff using d' by linarith
  from fmul_near [OF this] obtain x0 where x0: "fmul (Fin 2) (Fin d) = Fin x0" "\<bar>x0 - 2 * d\<bar> \<le> 1 / 8388608"
    by auto
  have "\<bar>100 + x0\<bar> \<le> 2 ^ 30" unfolding big using x0(2) d' unfolding abs_le_iff by linarith
  from fadd_near [OF this] obtain x1 where x1: "fadd (Fin 100) (Fin x0) = Fin x1" "\<bar>x1 - (100 + x0)\<bar> \<le> 1 / 8388608"
    by auto
  have "\<bar>x1 + t\<bar> \<le> 2 ^ 30" unfolding big using x0(2) x1(2) d' t' unfolding abs_le_iff by linarith
  from fadd_near [OF this] obtain x2 where x2: "fadd (Fin x1) (Fin t) = Fin x2" "\<bar>x2 - (x1 + t)\<bar> \<le> 1 / 8388608"
    by auto
  have "\<bar>x2 + b\<bar> \<le> 2 ^ 30" unfolding big using x0(2) x1(2) x2(2) d' t' bd unfolding abs_le_iff by linarith
  from fadd_near [OF this] obtain x3 where x3: "fadd (Fin x2) (Fin b) = Fin x3" "\<bar>x3 - (x2 + b)\<bar> \<le> 1 / 8388608"
    by auto
  have "\<bar>x3 + c\<bar> \<le> 2 ^ 30" unfolding big using x0(2) x1(2) x2(2) x3(2) d' t' bd unfolding abs_le_iff by linarith
  from fadd_near [OF this] obtain x4 where x4: "fadd (Fin x3) (Fin c) = Fin x4" "\<bar>x4 - (x3 + c)\<bar> \<le> 1 / 8388608"
    by auto
  have "\<bar>x4 + k\<bar> \<le> 2 ^ 30" unfolding big using x0(2) x1(2) x2(2) x3(2) x4(2) d' t' bd unfolding abs_le_iff by linarith
  from fadd_near [OF this] obtain x5 where x5: "fadd (Fin x4) (Fin k) = Fin x5" "\<bar>x5 - (x4 + k)\<bar> \<le> 1 / 8388608"
    by auto
  have s: "scoreSum64 inp = Fin x5"
    unfolding scoreSum64_def d(1) t(1) fl x0(1) x1(1) x2(1) x3(1) x4(1) x5(1) ..
  have e: "exactSum inp = 100 + 2 * d + t + b + c + k"
    by (simp add: exactSum_def d(1) t(1) b_def c_def k_def)
  have se: "\<bar>x5 - exactSum inp\<bar> \<le> 6 / 8388608"
    unfolding e using x0(2) x1(2) x2(2) x3(2) x4(2) x5(2) unfolding abs_le_iff by linarith
  have "\<bar>x5\<bar> \<le> 10000000"
    using se d' t' bd unfolding e abs_le_iff by linarith
  from round2_64_near [OF this] obtain v where v: "round2_64 (Fin x5) = Fin v" "\<bar>v - x5\<bar> \<le> 1 / 200 + 2 / 2 ^ 23"
    by auto
  have v': "\<bar>v - x5\<bar> \<le> 1 / 200 + 2 / 8388608" using v(2) by simp
  have "\<bar>v - exactSum inp\<bar> \<le> 5001 / 1000000"
    using se v' unfolding abs_le_iff by linarith
  then have "\<bar>v - exactSum inp\<bar> \<le> 5001 / 10 ^ 6" by simp
  moreover have "total (computeScore64 inp) = Fin v"
    by (simp only: computeScore64_total_eq s v(1))
  ultimately show ?thesis by blast
qed

text \<open>The example input: distance \<open>300\<close> and a time average of \<open>10\<close>.\<close>

lemma exampleRun64_used:
  "distanceUsed64 (exampleRun b cv conv) = Fin 300" "timeUsed64 (exampleRun b cv conv) = Fin 10"
  by (simp_all add: distanceUsed64_def timeUsed64_def exampleRun_def num64_def avgOfTimes64_def
      fadd_def fdiv_def rnd64_numeral)

lemma exampleRun64_total:
  "total (computeScore64 (exampleRun b cv conv))
     = Fin (710 + (if b then - 100 else 0) + (if cv then 150 else 0) + (if conv then 300 else 0))"
proof -
  have "total (computeScore64 (exampleRun b cv conv)) = Fin (exactSum (exampleRun b cv conv))"
  proof (rule computeScore64_total_whole)
    show "distanceUsed64 (exampleRun b cv conv) = Fin 300" by (rule exampleRun64_used)
    show "timeUsed64 (exampleRun b cv conv) = Fin 10" by (rule exampleRun64_used)
  qed simp_all
  moreover have "exactSum (exampleRun b cv conv)
      = 710 + (if b then - 100 else 0) + (if cv then 150 else 0) + (if conv then 300 else 0)"
    unfolding exactSum_def exampleRun64_used by (simp add: exampleRun_def)
  ultimately show ?thesis by (simp only:)
qed

text \<open>Two inputs where the rounding of binary64 decides the second decimal.\<close>

lemma Number64_examples:
  "Number64 (JStr ''8.13'') = rnd64 (813 / 100)" "Number64 (JStr ''1.84'') = rnd64 (184 / 100)"
  "Number64 (JStr ''0'') = Fin 0" "Number64 (JStr ''0.01'') = rnd64 (1 / 100)"
  by (simp_all add: parse_eval rnd64_numeral)

lemma twoTimes_used:
  "timeUsed64 (twoTimes 563 ''8.13'' ''1.84'') = rnd64 (4985 / 1000)"
  "timeUsed64 (twoTimes 0 ''0'' ''0.01'') = rnd64 (5 / 1000)"
  "distanceUsed64 (twoTimes d s1 s2) = Fin d"
    apply (simp add: timeUsed64_def twoTimes_def avgOfTimes64_def Number64_examples del: Number64.simps)
    apply (simp add: rnd_eval)
   apply (simp add: timeUsed64_def twoTimes_def avgOfTimes64_def Number64_examples del: Number64.simps)
   apply (simp add: rnd_eval)
  apply (simp add: distanceUsed64_def twoTimes_def num64_def)
  done

lemma twoTimes_sum:
  "scoreSum64 (twoTimes 563 ''8.13'' ''1.84'') = rnd64 (1230985 / 1000)"
  "scoreSum64 (twoTimes 0 ''0'' ''0.01'') = rnd64 (100005 / 1000)"
   apply (simp add: scoreSum64_def twoTimes_used)
   apply (simp add: twoTimes_def rnd_eval)
  apply (simp add: scoreSum64_def twoTimes_used)
  apply (simp add: twoTimes_def rnd_eval)
  done

lemma twoTimes_total:
  "total (computeScore64 (twoTimes 563 ''8.13'' ''1.84'')) = rnd64 (123098 / 100)"
  "total (computeScore64 (twoTimes 0 ''0'' ''0.01'')) = rnd64 (10001 / 100)"
   apply (simp add: computeScore64_total_eq twoTimes_sum round2_64_def)
   apply (simp add: rnd_eval)
  apply (simp add: computeScore64_total_eq twoTimes_sum round2_64_def)
  apply (simp add: rnd_eval)
  done

lemma twoTimes_exact:
  "round2dec (exactSum (twoTimes 563 ''8.13'' ''1.84'')) = 123099 / 100"
  "round2dec (fval (scoreSum64 (twoTimes 0 ''0'' ''0.01''))) = 100"
  "fval (rnd64 (123098 / 100)) < 123099 / 100 - 9 / 1000"
  "100 + 9 / 1000 < fval (rnd64 (10001 / 100))"
     apply (simp add: exactSum_def twoTimes_used)
     apply (simp add: twoTimes_def round2dec_def rnd_eval)
    apply (simp add: twoTimes_sum)
    apply (simp add: round2dec_def rnd_eval)
   apply (simp add: rnd_eval)
  apply (simp add: rnd_eval)
  done

text \<open>
  Claim C1 (the total is not always the sum rounded to two decimals). A run of \<open>563\<close> cm
  with the times \<open>8.13\<close> and \<open>1.84\<close>: the time average is the binary64 value next to
  \<open>4.985\<close>, the exact sum \<open>100 + 2 \<times> 563\<close> + average rounds to \<open>1230.99\<close>, and the total the
  code returns is the binary64 value next to \<open>1230.98\<close>. A run of \<open>0\<close> cm with the times
  \<open>0\<close> and \<open>0.01\<close>: the sum the code computes is a binary64 value below \<open>100.005\<close>, which
  rounds to \<open>100\<close>, and the total returned is the binary64 value next to \<open>100.01\<close>. So
  the total is the two-decimal rounding neither of the exact sum nor of the computed one.
\<close>

theorem C1_total_not_rounded_sum_counterexample:
  "total (computeScore64 (twoTimes 563 ''8.13'' ''1.84'')) = rnd64 (123098 / 100)
   \<and> round2dec (exactSum (twoTimes 563 ''8.13'' ''1.84'')) = 123099 / 100
   \<and> fval (total (computeScore64 (twoTimes 563 ''8.13'' ''1.84'')))
       < round2dec (exactSum (twoTimes 563 ''8.13'' ''1.84'')) - 9 / 1000
   \<and> total (computeScore64 (twoTimes 0 ''0'' ''0.01'')) = rnd64 (10001 / 100)
   \<and> round2dec (fval (scoreSum64 (twoTimes 0 ''0'' ''0.01''))) = 100
   \<and> round2dec (fval (scoreSum64 (twoTimes 0 ''0'' ''0.01''))) + 9 / 1000
       < fval (total (computeScore64 (twoTimes 0 ''0'' ''0.01'')))"
  by (simp only: twoTimes_total twoTimes_exact simp_thms)

text \<open>
  Claim C1 (amended). For every input the total is \<^verbatim>\<open>round2\<close> of the sum
  \<open>100 + 2 \<times> distance used + time average\<close>, minus \<open>100\<close> when the bucket flag is set,
  plus \<open>150\<close> when the competition-violation flag is set, plus \<open>300\<close> when the
  construction-violation flag is set, where the sum is added up from left to right and
  \<^verbatim>\<open>round2\<close> multiplies and divides by \<open>100\<close>, every operation rounded to binary64. The
  distance used is always finite. When the distance used and the time average are whole
  numbers of at most \<open>10\<^sup>9\<close> the total is the exact sum; when they are any numbers of at
  most \<open>10\<^sup>6\<close> the total is finite and at most \<open>0.005001\<close> away from the exact sum. The
  example input scores \<open>710\<close>, with the bucket flag \<open>610\<close>, with both violation flags
  \<open>1160\<close>.
\<close>

theorem C1_computeScore64_total:
  "total (computeScore64 inp) = round2_64 (scoreSum64 inp)
   \<and> (\<exists>d. distanceUsed64 inp = Fin d)
   \<and> (\<forall>d t. distanceUsed64 inp = Fin d \<and> timeUsed64 inp = Fin t
          \<and> d \<in> \<int> \<and> t \<in> \<int> \<and> \<bar>d\<bar> \<le> 10 ^ 9 \<and> \<bar>t\<bar> \<le> 10 ^ 9
        \<longrightarrow> total (computeScore64 inp) = Fin (exactSum inp))
   \<and> (\<forall>d t. distanceUsed64 inp = Fin d \<and> timeUsed64 inp = Fin t
          \<and> \<bar>d\<bar> \<le> 10 ^ 6 \<and> \<bar>t\<bar> \<le> 10 ^ 6
        \<longrightarrow> (\<exists>v. total (computeScore64 inp) = Fin v \<and> \<bar>v - exactSum inp\<bar> \<le> 5001 / 10 ^ 6))
   \<and> total (computeScore64 (exampleRun False False False)) = Fin 710
   \<and> total (computeScore64 (exampleRun True False False)) = Fin 610
   \<and> total (computeScore64 (exampleRun False True True)) = Fin 1160"
proof (intro conjI allI impI)
  show "total (computeScore64 inp) = round2_64 (scoreSum64 inp)"
    by (rule computeScore64_total_eq)
  show "\<exists>d. distanceUsed64 inp = Fin d"
    by (rule distanceUsed64_Fin)
next
  fix d t
  assume "distanceUsed64 inp = Fin d \<and> timeUsed64 inp = Fin t
          \<and> d \<in> \<int> \<and> t \<in> \<int> \<and> \<bar>d\<bar> \<le> 10 ^ 9 \<and> \<bar>t\<bar> \<le> 10 ^ 9"
  then show "total (computeScore64 inp) = Fin (exactSum inp)"
    by (intro computeScore64_total_whole [of inp d t]) simp_all
next
  fix d t
  assume "distanceUsed64 inp = Fin d \<and> timeUsed64 inp = Fin t \<and> \<bar>d\<bar> \<le> 10 ^ 6 \<and> \<bar>t\<bar> \<le> 10 ^ 6"
  then show "\<exists>v. total (computeScore64 inp) = Fin v \<and> \<bar>v - exactSum inp\<bar> \<le> 5001 / 10 ^ 6"
    by (intro computeScore64_total_near [of inp d t]) simp_all
next
  show "total (computeScore64 (exampleRun False False False)) = Fin 710"
    by (simp add: exampleRun64_total)
  show "total (computeScore64 (exampleRun True False False)) = Fin 610"
    by (simp add: exampleRun64_total)
  show "total (computeScore64 (exampleRun False True True)) = Fin 1160"
    by (simp add: exampleRun64_total)
qed

text \<open>
  The theorem at a failed run with a bucket bonus and a competition violation, whatever
  the form holds otherwise (\<open>100 + 2 \<times> 2500 + 0 - 100 + 150 = 5150\<close>), and at the run of
  \<open>563\<close> cm with the times \<open>8.13\<close> and \<open>1.84\<close>.
\<close>

theorem C1_computeScore64_total_witness:
  "total (computeScore64
     \<lparr> vehicleDistanceCm = JStr ''12'', time1 = JStr ''7'', time2 = JNull, time3 = JUndefined,
       bucketBonus = JBool True, failedRun = JBool True,
       competitionViolationPoints = JBool True,
       constructionViolationPoints = JBool False \<rparr>) = Fin 5150
   \<and> \<bar>fval (total (computeScore64 (twoTimes 563 ''8.13'' ''1.84'')))
        - exactSum (twoTimes 563 ''8.13'' ''1.84'')\<bar> \<le> 5001 / 10 ^ 6"
proof -
  define X where "X = \<lparr> vehicleDistanceCm = JStr ''12'', time1 = JStr ''7'', time2 = JNull,
       time3 = JUndefined, bucketBonus = JBool True, failedRun = JBool True,
       competitionViolationPoints = JBool True,
       constructionViolationPoints = JBool False \<rparr>"
  define Y where "Y = twoTimes 563 ''8.13'' ''1.84''"
  have x: "distanceUsed64 X = Fin 2500" "timeUsed64 X = Fin 0"
    by (simp_all add: X_def distanceUsed64_def timeUsed64_def)
  have ex: "exactSum X = 5150"
    by (simp add: exactSum_def x) (simp add: X_def)
  from C1_computeScore64_total [of X]
  have w: "\<And>d t. distanceUsed64 X = Fin d \<and> timeUsed64 X = Fin t
          \<and> d \<in> \<int> \<and> t \<in> \<int> \<and> \<bar>d\<bar> \<le> 10 ^ 9 \<and> \<bar>t\<bar> \<le> 10 ^ 9
        \<Longrightarrow> total (computeScore64 X) = Fin (exactSum X)"
    by blast
  have "total (computeScore64 X) = Fin (exactSum X)"
    by (rule w [of 2500 0]) (simp add: x)
  then have a: "total (computeScore64 X) = Fin 5150"
    by (simp only: ex)
  define t :: real where "t = 5612611035610481 / 1125899906842624"
  have t: "timeUsed64 Y = Fin t"
    unfolding Y_def twoTimes_used t_def by (simp add: rnd_eval)
  have d: "distanceUsed64 Y = Fin 563"
    unfolding Y_def by (rule twoTimes_used)
  have t': "\<bar>t\<bar> \<le> 10 ^ 6" by (simp add: t_def)
  from C1_computeScore64_total [of Y]
  have n: "\<And>d t. distanceUsed64 Y = Fin d \<and> timeUsed64 Y = Fin t
          \<and> \<bar>d\<bar> \<le> 10 ^ 6 \<and> \<bar>t\<bar> \<le> 10 ^ 6
        \<Longrightarrow> \<exists>v. total (computeScore64 Y) = Fin v \<and> \<bar>v - exactSum Y\<bar> \<le> 5001 / 10 ^ 6"
    by blast
  have "\<exists>v. total (computeScore64 Y) = Fin v \<and> \<bar>v - exactSum Y\<bar> \<le> 5001 / 10 ^ 6"
    using d t t' by (intro n [of 563 t]) simp
  then have b: "\<bar>fval (total (computeScore64 Y)) - exactSum Y\<bar> \<le> 5001 / 10 ^ 6"
    by auto
  from a b show ?thesis
    unfolding X_def Y_def by (rule conjI)
qed

text \<open>
  Claim C2. A failed run is scored with distance \<open>2500\<close> and time average \<open>0\<close>, whatever
  the distance and time fields hold: these are the values reported, and the total is
  \<open>100 + 2 \<times> 2500 + 0\<close>, that is \<open>5100\<close>, with the bucket bonus and the two penalties
  applied as in any run. Every value involved is a whole number, so the rounding of
  binary64 changes nothing.
\<close>

theorem C2_failedRun_override:
  "truthy (failedRun inp) \<Longrightarrow>
     distCm (breakdown (computeScore inp)) = Fin 2500 \<and>
     timeAvg (computeScore inp) = Fin 0 \<and>
     bTimeAvg (breakdown (computeScore inp)) = Fin 0 \<and>
     distanceScore (breakdown (computeScore inp)) = Fin 5000 \<and>
     failed (breakdown (computeScore inp)) \<and>
     total (computeScore inp) =
       Fin (5100 + (if truthy (bucketBonus inp) then - 100 else 0)
                 + (if truthy (competitionViolationPoints inp) then 150 else 0)
                 + (if truthy (constructionViolationPoints inp) then 300 else 0)) \<and>
     distanceUsed64 inp = Fin 2500 \<and> timeUsed64 inp = Fin 0 \<and>
     distCm (breakdown (computeScore64 inp)) = Fin 2500 \<and>
     timeAvg (computeScore64 inp) = Fin 0 \<and>
     bTimeAvg (breakdown (computeScore64 inp)) = Fin 0 \<and>
     distanceScore (breakdown (computeScore64 inp)) = Fin 5000 \<and>
     failed (breakdown (computeScore64 inp)) \<and>
     total (computeScore64 inp) =
       Fin (5100 + (if truthy (bucketBonus inp) then - 100 else 0)
                 + (if truthy (competitionViolationPoints inp) then 150 else 0)
                 + (if truthy (constructionViolationPoints inp) then 300 else 0))"
proof -
  assume f: "truthy (failedRun inp)"
  have u: "distanceUsed64 inp = Fin 2500" "timeUsed64 inp = Fin 0"
    using f by (simp_all add: distanceUsed64_def timeUsed64_def)
  have "total (computeScore64 inp) = Fin (exactSum inp)"
    by (rule computeScore64_total_whole [OF u(1) _ _ u(2)]) simp_all
  then have t64: "total (computeScore64 inp) =
       Fin (5100 + (if truthy (bucketBonus inp) then - 100 else 0)
                 + (if truthy (competitionViolationPoints inp) then 150 else 0)
                 + (if truthy (constructionViolationPoints inp) then 300 else 0))"
    by (simp add: exactSum_def u)
  have r: "round2_64 (Fin 2500) = Fin 2500" "round2_64 (Fin 0) = Fin 0"
    "round2_64 (Fin 5000) = Fin 5000"
    by (rule round2_64_Ints; simp)+
  have m: "fmul (Fin 2) (Fin 2500) = Fin 5000"
    using fmul_Ints [of 2 2500] by simp
  have b64: "distCm (breakdown (computeScore64 inp)) = Fin 2500"
    "timeAvg (computeScore64 inp) = Fin 0"
    "bTimeAvg (breakdown (computeScore64 inp)) = Fin 0"
    "distanceScore (breakdown (computeScore64 inp)) = Fin 5000"
    "failed (breakdown (computeScore64 inp))"
    using f by (simp_all add: computeScore64_def Let_def r m)
  have ex: "distCm (breakdown (computeScore inp)) = Fin 2500 \<and>
     timeAvg (computeScore inp) = Fin 0 \<and>
     bTimeAvg (breakdown (computeScore inp)) = Fin 0 \<and>
     distanceScore (breakdown (computeScore inp)) = Fin 5000 \<and>
     failed (breakdown (computeScore inp)) \<and>
     total (computeScore inp) =
       Fin (5100 + (if truthy (bucketBonus inp) then - 100 else 0)
                 + (if truthy (competitionViolationPoints inp) then 150 else 0)
                 + (if truthy (constructionViolationPoints inp) then 300 else 0))"
    using f by (simp add: computeScore_def round2_def Let_def)
  from ex u b64 t64 show ?thesis by (simp only: simp_thms)
qed

text \<open>
  The theorem at a failed run whose form holds a distance of \<open>37\<close> and the times \<open>4.2\<close>
  and \<open>x\<close>: distance \<open>2500\<close>, time average \<open>0\<close> and total \<open>5100\<close>.
\<close>

theorem C2_failedRun_override_witness:
  "truthy (failedRun (formRun (Fin 37) ''4.2'' ''x'' [] True)) \<and>
   distCm (breakdown (computeScore (formRun (Fin 37) ''4.2'' ''x'' [] True))) = Fin 2500 \<and>
   timeAvg (computeScore (formRun (Fin 37) ''4.2'' ''x'' [] True)) = Fin 0 \<and>
   total (computeScore (formRun (Fin 37) ''4.2'' ''x'' [] True)) = Fin 5100 \<and>
   distCm (breakdown (computeScore64 (formRun (Fin 37) ''4.2'' ''x'' [] True))) = Fin 2500 \<and>
   timeAvg (computeScore64 (formRun (Fin 37) ''4.2'' ''x'' [] True)) = Fin 0 \<and>
   total (computeScore64 (formRun (Fin 37) ''4.2'' ''x'' [] True)) = Fin 5100"
proof -
  have h: "truthy (failedRun (formRun (Fin 37) ''4.2'' ''x'' [] True))"
    by (simp add: formRun_def)
  have z: "\<not> truthy (bucketBonus (formRun (Fin 37) ''4.2'' ''x'' [] True))"
    "\<not> truthy (competitionViolationPoints (formRun (Fin 37) ''4.2'' ''x'' [] True))"
    "\<not> truthy (constructionViolationPoints (formRun (Fin 37) ''4.2'' ''x'' [] True))"
    by (simp_all add: formRun_def)
  from C2_failedRun_override [OF h] h z show ?thesis by simp
qed

section \<open>The filter in binary64\<close>
















section \<open>The ranking in binary64\<close>

text \<open>The order of Numbers.\<close>

lemma nle_not_nlt: "nle a b \<Longrightarrow> \<not> nlt b a"
  by (cases a; cases b) simp_all

lemma nlt_or_nle: "a \<noteq> NaN \<Longrightarrow> b \<noteq> NaN \<Longrightarrow> nlt a b \<or> nle b a"
  by (cases a; cases b) auto

lemma nlt_nle_trans: "nlt a b \<Longrightarrow> nle b c \<Longrightarrow> nlt a c"
  by (cases a; cases b; cases c) simp_all

lemma nle_nlt_trans: "nle a b \<Longrightarrow> nlt b c \<Longrightarrow> nlt a c"
  by (cases a; cases b; cases c) simp_all

lemma nle_trans: "nle a b \<Longrightarrow> nle b c \<Longrightarrow> nle a c"
  by (cases a; cases b; cases c) simp_all

lemma nlt_imp_nle: "nlt a b \<Longrightarrow> nle a b"
  by (cases a; cases b) simp_all

lemma not_below_PInf: "a \<noteq> NaN \<Longrightarrow> \<not> nlt a PInf \<Longrightarrow> a = PInf"
  by (cases a) simp_all

lemma nle_PInf: "a \<noteq> NaN \<Longrightarrow> nle a PInf"
  by (cases a) simp_all

text \<open>A sum of finite Numbers can overflow, and is never \<open>NaN\<close>; nor is their mean.\<close>

lemma fadd_not_NaN: "a \<noteq> NaN \<Longrightarrow> isFiniteN b \<Longrightarrow> fadd a b \<noteq> NaN"
  by (cases a; cases b) (simp_all add: fadd_def rnd64_not_NaN)

lemma foldl_fadd_not_NaN:
  "list_all isFiniteN ss \<Longrightarrow> a \<noteq> NaN \<Longrightarrow> foldl fadd a ss \<noteq> NaN"
  by (induction ss arbitrary: a) (simp_all add: fadd_not_NaN)

lemma mean64_not_NaN:
  assumes "list_all isFiniteN ss" and "ss \<noteq> []"
  shows "mean64 ss \<noteq> NaN"
proof -
  have "foldl fadd (Fin 0) ss \<noteq> NaN"
    using assms(1) by (intro foldl_fadd_not_NaN) simp_all
  moreover have "(0::real) < of_nat (length ss)" using assms(2) by simp
  ultimately show ?thesis
    by (cases "foldl fadd (Fin 0) ss") (simp_all add: mean64_def fdiv_def rnd64_not_NaN)
qed

lemma finiteScores64_finite: "list_all isFiniteN (finiteScores64 rs)"
  by (simp add: finiteScores64_def list_all_iff)

lemma ranked64_mean: "ranked64 e \<Longrightarrow> setupMean64 e \<noteq> NaN"
  using mean64_not_NaN [OF finiteScores64_finite, of "snd e"]
  by (simp add: ranked64_def setupMean64_def)

lemma ranked64_best:
  "ranked64 e \<Longrightarrow> setupBest64 e = Fin (Min (fval ` set (finiteScores64 (snd e))))"
  using Math_min_Fin [OF finiteScores64_finite, of "snd e"]
  by (simp add: ranked64_def setupBest64_def)

text \<open>
  Scores up to a million, at most a thousand of them: the computed mean is the exact
  one up to one millionth.
\<close>

lemma foldl_fadd_near:
  assumes "\<forall>x \<in> set xs. \<bar>x\<bar> \<le> 1000000" and "\<bar>a\<bar> \<le> A"
    and "A + of_nat (length xs) * 1000001 \<le> 1073741824"
  shows "\<exists>s. foldl fadd (Fin a) (map Fin xs) = Fin s
           \<and> \<bar>s - (a + sum_list xs)\<bar> \<le> of_nat (length xs) / 8388608"
  using assms
proof (induction xs arbitrary: a A)
  case Nil
  then show ?case by simp
next
  case (Cons x xs)
  have x: "\<bar>x\<bar> \<le> 1000000" using Cons.prems(1) by simp
  have n: "A + (of_nat (length xs) * 1000001 + 1000001) \<le> (1073741824::real)"
    using Cons.prems(3) by (simp add: algebra_simps)
  have "(0::real) \<le> of_nat (length xs) * 1000001" by simp
  with n have A: "A + 1000001 \<le> 1073741824" by linarith
  have "\<bar>a + x\<bar> \<le> 2 ^ 30" using x Cons.prems(2) A by simp
  from fadd_near [OF this] obtain c where c: "fadd (Fin a) (Fin x) = Fin c"
    "\<bar>c - (a + x)\<bar> \<le> 1 / 2 ^ 23"
    by blast
  have c': "\<bar>c - (a + x)\<bar> \<le> 1 / 8388608" using c(2) by simp
  have cb: "\<bar>c\<bar> \<le> A + 1000001" using c' x Cons.prems(2) by linarith
  have "A + 1000001 + of_nat (length xs) * 1000001 \<le> (1073741824::real)"
    using n by linarith
  from Cons.IH [OF _ cb this] Cons.prems(1)
  obtain s where s: "foldl fadd (Fin c) (map Fin xs) = Fin s"
    "\<bar>s - (c + sum_list xs)\<bar> \<le> of_nat (length xs) / 8388608"
    by auto
  have "\<bar>s - (a + x + sum_list xs)\<bar> \<le> of_nat (length xs) / 8388608 + 1 / 8388608"
    using s(2) c' by linarith
  then have "\<bar>s - (a + sum_list (x # xs))\<bar> \<le> of_nat (length xs) / 8388608 + 1 / 8388608"
    by (simp add: add.assoc)
  then have "\<bar>s - (a + sum_list (x # xs))\<bar> \<le> of_nat (length (x # xs)) / 8388608"
    by (simp add: add_divide_distrib)
  with s(1) c(1) show ?case by simp
qed

lemma mean64_near:
  assumes b: "\<forall>x \<in> set xs. \<bar>x\<bar> \<le> 1000000" and n: "xs \<noteq> []" "length xs \<le> 1000"
  shows "\<exists>m. mean64 (map Fin xs) = Fin m
           \<and> \<bar>m - sum_list xs / of_nat (length xs)\<bar> \<le> 1 / 1000000"
proof -
  define k :: real where "k = of_nat (length xs)"
  have k: "1 \<le> k" "k \<le> 1000"
    using n by (simp_all add: k_def Suc_le_eq)
  have "0 + k * 1000001 \<le> (1073741824::real)" using k by simp
  then have "0 + of_nat (length xs) * 1000001 \<le> (1073741824::real)" by (simp only: k_def)
  from foldl_fadd_near [OF b _ this, of 0]
  obtain s where s: "foldl fadd (Fin 0) (map Fin xs) = Fin s"
    "\<bar>s - sum_list xs\<bar> \<le> k / 8388608"
    by (auto simp: k_def)
  have sum: "\<bar>sum_list xs\<bar> \<le> k * 1000000"
  proof -
    have "\<bar>sum_list xs\<bar> \<le> sum_list (map abs xs)" by (rule sum_list_abs)
    also have "\<dots> \<le> sum_list (map (\<lambda>x. 1000000) xs)"
      using b by (intro sum_list_mono) simp
    also have "\<dots> = k * 1000000" by (simp add: sum_list_triv k_def)
    finally show ?thesis .
  qed
  have sk: "\<bar>s / k - sum_list xs / k\<bar> \<le> 1 / 8388608"
  proof -
    have "\<bar>s / k - sum_list xs / k\<bar> = \<bar>s - sum_list xs\<bar> / k"
      using k by (simp add: diff_divide_distrib [symmetric])
    also have "\<dots> \<le> (k / 8388608) / k"
      using s(2) k by (intro divide_right_mono) simp_all
    also have "\<dots> = 1 / 8388608" using k by simp
    finally show ?thesis .
  qed
  have "\<bar>sum_list xs / k\<bar> \<le> 1000000"
  proof -
    have "\<bar>sum_list xs / k\<bar> = \<bar>sum_list xs\<bar> / k" using k by simp
    also have "\<dots> \<le> (k * 1000000) / k" using sum k by (intro divide_right_mono) simp_all
    also have "\<dots> = 1000000" using k by simp
    finally show ?thesis .
  qed
  with sk have "\<bar>s / k\<bar> \<le> 1000001" by linarith
  then have "\<bar>s / k\<bar> \<le> 2 ^ 30" by simp
  from rnd64_near [OF this] obtain m where m: "rnd64 (s / k) = Fin m" "\<bar>m - s / k\<bar> \<le> 1 / 2 ^ 23"
    by blast
  have m': "\<bar>m - s / k\<bar> \<le> 1 / 8388608" using m(2) by simp
  have "mean64 (map Fin xs) = Fin m"
    using k by (simp add: mean64_def s(1) fdiv_def k_def [symmetric] m(1))
  moreover have "\<bar>m - sum_list xs / k\<bar> \<le> 1 / 1000000"
    using m' sk by linarith
  ultimately show ?thesis unfolding k_def by blast
qed

lemma map_Fin_fval: "list_all isFiniteN ss \<Longrightarrow> map Fin (map fval ss) = ss"
proof (induction ss)
  case Nil
  then show ?case by simp
next
  case (Cons s ss)
  then show ?case by (cases s) simp_all
qed

lemma setupMean64_near:
  assumes "ranked64 e" and "\<forall>s \<in> set (finiteScores64 (snd e)). \<bar>fval s\<bar> \<le> 10 ^ 6"
    and "length (finiteScores64 (snd e)) \<le> 1000"
  shows "\<exists>m. setupMean64 e = Fin m \<and> \<bar>m - exactMean e\<bar> \<le> 1 / 10 ^ 6"
proof -
  define xs where "xs = map fval (finiteScores64 (snd e))"
  have ss: "finiteScores64 (snd e) = map Fin xs"
    unfolding xs_def by (rule map_Fin_fval [OF finiteScores64_finite, symmetric])
  have "\<forall>x \<in> set xs. \<bar>x\<bar> \<le> 1000000" using assms(2) by (simp add: xs_def)
  moreover have "xs \<noteq> []" using assms(1) by (simp add: xs_def ranked64_def)
  moreover have "length xs \<le> 1000" using assms(3) by (simp add: xs_def)
  ultimately obtain m where "mean64 (map Fin xs) = Fin m"
    "\<bar>m - sum_list xs / of_nat (length xs)\<bar> \<le> 1 / 1000000"
    using mean64_near by blast
  then have "setupMean64 e = Fin m \<and> \<bar>m - exactMean e\<bar> \<le> 1 / 10 ^ 6"
    by (simp add: setupMean64_def exactMean_def ss [symmetric]) (simp add: xs_def)
  then show ?thesis by blast
qed

text \<open>The loop body is the two updates side by side.\<close>

lemma rankStep64_avg:
  "(bestSetupAvg (rankStep64 st e), bestAvgVal (rankStep64 st e))
     = better64 setupMean64 avgLabel64 (bestSetupAvg st, bestAvgVal st) e"
  by (cases e)
    (simp add: rankStep64_def better64_def ranked64_def avgLabel64_def setupMean64_def Let_def
      del: toFixed.simps)

lemma rankStep64_single:
  "(bestSetupSingle (rankStep64 st e), bestSingleVal (rankStep64 st e))
     = better64 setupBest64 singleLabel64 (bestSetupSingle st, bestSingleVal st) e"
  by (cases e)
    (simp add: rankStep64_def better64_def ranked64_def singleLabel64_def setupBest64_def Let_def
      del: toFixed.simps)

lemma foldl_rankStep64_avg:
  "(bestSetupAvg (foldl rankStep64 st es), bestAvgVal (foldl rankStep64 st es))
     = foldl (better64 setupMean64 avgLabel64) (bestSetupAvg st, bestAvgVal st) es"
  by (induction es arbitrary: st) (simp_all add: rankStep64_avg [symmetric])

lemma foldl_rankStep64_single:
  "(bestSetupSingle (foldl rankStep64 st es), bestSingleVal (foldl rankStep64 st es))
     = foldl (better64 setupBest64 singleLabel64) (bestSetupSingle st, bestSingleVal st) es"
  by (induction es arbitrary: st) (simp_all add: rankStep64_single [symmetric])

text \<open>One update, run over a list: the first lowest entry wins.\<close>

lemma better64_keeps:
  assumes "\<forall>e' \<in> set xs. ranked64 e' \<longrightarrow> nle (snd cur) (val e')"
  shows "foldl (better64 val lbl) cur xs = cur"
  using assms
proof (induction xs)
  case Nil
  then show ?case by simp
next
  case (Cons x xs)
  have "better64 val lbl cur x = cur"
    using Cons.prems nle_not_nlt [of "snd cur" "val x"] by (auto simp: better64_def)
  with Cons show ?case by simp
qed

lemma better64_prefix:
  "snd (foldl (better64 val lbl) (l0, PInf) pre) = PInf
    \<or> (\<exists>e' \<in> set pre. ranked64 e' \<and> snd (foldl (better64 val lbl) (l0, PInf) pre) = val e')"
proof (induction pre rule: rev_induct)
  case Nil
  then show ?case by simp
next
  case (snoc x pre)
  then show ?case
    by (auto simp: better64_def)
qed

lemma better64_firstLowest:
  assumes fl: "firstLowest64 val pre e post"
  shows "foldl (better64 val lbl) (l0, PInf) (pre @ e # post) = (lbl e, val e)"
proof -
  define cur where "cur = foldl (better64 val lbl) (l0, PInf) pre"
  have r: "ranked64 e" using fl by (simp add: firstLowest64_def)
  have "nlt (val e) (snd cur)"
    using better64_prefix [of val lbl l0 pre] fl
    by (auto simp: cur_def firstLowest64_def)
  then have step: "better64 val lbl cur e = (lbl e, val e)"
    using r by (simp add: better64_def)
  have "foldl (better64 val lbl) (lbl e, val e) post = (lbl e, val e)"
    using fl by (intro better64_keeps) (simp add: firstLowest64_def)
  with step show ?thesis
    by (simp add: cur_def)
qed

lemma better64_none:
  "\<forall>e' \<in> set xs. ranked64 e' \<longrightarrow> \<not> nlt (val e') PInf
     \<Longrightarrow> foldl (better64 val lbl) (l0, PInf) xs = (l0, PInf)"
  by (induction xs) (auto simp: better64_def)

text \<open>Where a ranked entry has a value below \<^verbatim>\<open>Infinity\<close>, there is a first lowest one.\<close>

lemma firstLowest64_exists:
  assumes nan: "\<And>e. ranked64 e \<Longrightarrow> val e \<noteq> NaN"
  shows "\<exists>e \<in> set es. ranked64 e \<and> nlt (val e) PInf
     \<Longrightarrow> \<exists>pre e post. es = pre @ e # post \<and> firstLowest64 val pre e post"
proof (induction es)
  case Nil
  then show ?case by simp
next
  case (Cons x xs)
  show ?case
  proof (cases "\<exists>e \<in> set xs. ranked64 e \<and> nlt (val e) PInf")
    case False
    with Cons.prems have x: "ranked64 x" "nlt (val x) PInf" by auto
    have "nle (val x) (val e')" if "e' \<in> set xs" "ranked64 e'" for e'
    proof -
      have "val e' = PInf" using that False nan [OF that(2)] by (intro not_below_PInf) auto
      then show ?thesis using nle_PInf [OF nan [OF x(1)]] by simp
    qed
    with x have "firstLowest64 val [] x xs"
      by (simp add: firstLowest64_def)
    then show ?thesis by (metis append_Nil)
  next
    case True
    then obtain pre e post where d: "xs = pre @ e # post" and fl: "firstLowest64 val pre e post"
      using Cons.IH by blast
    have e: "ranked64 e" "nlt (val e) PInf"
      "\<And>e'. e' \<in> set pre \<Longrightarrow> ranked64 e' \<Longrightarrow> nlt (val e) (val e')"
      "\<And>e'. e' \<in> set post \<Longrightarrow> ranked64 e' \<Longrightarrow> nle (val e) (val e')"
      using fl by (simp_all add: firstLowest64_def)
    show ?thesis
    proof (cases "ranked64 x \<and> nle (val x) (val e)")
      case True
      then have x: "ranked64 x" "nle (val x) (val e)" by simp_all
      have "nle (val x) (val e')" if "e' \<in> set xs" "ranked64 e'" for e'
      proof -
        from that(1) d consider "e' \<in> set pre" | "e' = e" | "e' \<in> set post" by auto
        then show ?thesis
        proof cases
          case 1
          then show ?thesis
            using e(3) [OF 1 that(2)] x(2) nle_nlt_trans nlt_imp_nle by blast
        next
          case 2
          then show ?thesis using x(2) by simp
        next
          case 3
          then show ?thesis
            using e(4) [OF 3 that(2)] x(2) nle_trans by blast
        qed
      qed
      moreover have "nlt (val x) PInf"
        using x(2) e(2) by (rule nle_nlt_trans)
      ultimately have "firstLowest64 val [] x xs"
        using x(1) by (simp add: firstLowest64_def)
      then show ?thesis by (metis append_Nil)
    next
      case False
      have "nlt (val e) (val x)" if "ranked64 x"
        using False that nlt_or_nle [OF nan [OF e(1)] nan [OF that]] by auto
      with e have "firstLowest64 val (x # pre) e post"
        by (auto simp: firstLowest64_def)
      with d show ?thesis by (metis append_Cons)
    qed
  qed
qed

lemma rankSetups64_avg:
  "firstLowest64 setupMean64 pre e post \<Longrightarrow>
     bestSetupAvg (rankSetups64 (pre @ e # post)) = avgLabel64 e"
  using foldl_rankStep64_avg [of rankInit "pre @ e # post"]
    better64_firstLowest [of setupMean64 pre e post avgLabel64 "[]"]
  by (simp add: rankSetups64_def rankInit_def)

lemma rankSetups64_single:
  "firstLowest64 setupBest64 pre e post \<Longrightarrow>
     bestSetupSingle (rankSetups64 (pre @ e # post)) = singleLabel64 e"
  using foldl_rankStep64_single [of rankInit "pre @ e # post"]
    better64_firstLowest [of setupBest64 pre e post singleLabel64 "[]"]
  by (simp add: rankSetups64_def rankInit_def)

lemma rankSetups64_none:
  "\<forall>e \<in> set es. ranked64 e \<longrightarrow> \<not> nlt (setupMean64 e) PInf
     \<Longrightarrow> bestSetupAvg (rankSetups64 es) = []"
  "\<forall>e \<in> set es. \<not> ranked64 e \<Longrightarrow> bestSetupSingle (rankSetups64 es) = []"
  using foldl_rankStep64_avg [of rankInit es] foldl_rankStep64_single [of rankInit es]
    better64_none [of es setupMean64 avgLabel64 "[]"]
    better64_none [of es setupBest64 singleLabel64 "[]"]
  by (simp_all add: rankSetups64_def rankInit_def)

lemma summaryRow64_best:
  "bestSetupByAvg (summaryRow64 k rs) = bestSetupAvg (rankSetups64 (groupBy setupKey64 rs))"
  "bestSetupBySingle (summaryRow64 k rs) = bestSetupSingle (rankSetups64 (groupBy setupKey64 rs))"
  by (simp_all add: summaryRow64_def Let_def)

text \<open>Grouping under two keys that agree on the runs, and the setups of the examples.\<close>

lemma groupBy_cong: "(\<And>r. r \<in> set rs \<Longrightarrow> f r = g r) \<Longrightarrow> groupBy f rs = groupBy g rs"
proof (induction rs rule: rev_induct)
  case Nil
  then show ?case by (simp add: groupBy_Nil)
next
  case (snoc r rs)
  then show ?case by (simp add: groupBy_snoc)
qed

lemma Number64_js_or:
  "Number64 (js_or (JNum (Fin a)) (JNum (Fin 0))) = Fin a"
  "Number (js_or (JNum (Fin a)) (JNum (Fin 0))) = Fin a"
  by (simp_all add: js_or_def)

lemma setupKey64_saved: "setupKey64 (savedRun d a t w s) = setupKey (savedRun d a t w s)"
  by (simp add: setupKey64_def setupKey_def savedRun_def Number64_js_or del: toFixed.simps)

lemma rankExample_groups64:
  "groupBy setupKey64 rankExample =
     [(setupKey64 (savedRun 5 12 3 20 600), [savedRun 5 12 3 20 600, savedRun 5 12 3 20 800]),
      (setupKey64 (savedRun 5 13 3 20 620), [savedRun 5 13 3 20 620, savedRun 5 13 3 20 680])]"
proof -
  have "groupBy setupKey64 rankExample = groupBy setupKey rankExample"
    by (rule groupBy_cong) (auto simp: rankExample_def setupKey64_saved)
  then show ?thesis
    by (simp only: rankExample_groups setupKey64_saved)
qed

lemma tieExample_groups64:
  "groupBy setupKey64 tieExample =
     [(setupKey64 (savedRun 5 12 3 20 600), [savedRun 5 12 3 20 600, savedRun 5 12 3 20 800]),
      (setupKey64 (savedRun 5 13 3 20 620), [savedRun 5 13 3 20 800, savedRun 5 13 3 20 600])]"
proof -
  have "groupBy setupKey64 tieExample = groupBy setupKey tieExample"
    by (rule groupBy_cong) (auto simp: tieExample_def setupKey64_saved)
  then show ?thesis
    by (simp only: tieExample_groups setupKey64_saved)
qed

lemma finiteScores64_saved:
  "finiteScores64 [savedRun d a t w s, savedRun d' a' t' w' s'] = [Fin s, Fin s']"
  by (simp add: finiteScores64_def savedRun_def)

lemma mean64_pair:
  "a \<in> \<int> \<Longrightarrow> b \<in> \<int> \<Longrightarrow> \<bar>a\<bar> \<le> 10 ^ 9 \<Longrightarrow> \<bar>b\<bar> \<le> 10 ^ 9 \<Longrightarrow> (a + b) / 2 \<in> \<int>
     \<Longrightarrow> mean64 [Fin a, Fin b] = Fin ((a + b) / 2)"
proof -
  assume a: "a \<in> \<int>" "\<bar>a\<bar> \<le> 10 ^ 9" and b: "b \<in> \<int>" "\<bar>b\<bar> \<le> 10 ^ 9"
    and h: "(a + b) / 2 \<in> \<int>"
  have a': "\<bar>a\<bar> \<le> 1000000000" and b': "\<bar>b\<bar> \<le> 1000000000" using a(2) b(2) by simp_all
  have 0: "fadd (Fin 0) (Fin a) = Fin a"
    using fadd_Ints [of 0 a] a(1) a' by simp
  have 1: "fadd (Fin a) (Fin b) = Fin (a + b)"
    using a(1) b(1) a' b' by (intro fadd_Ints) simp_all
  have "\<bar>(a + b) / 2\<bar> \<le> 2 ^ 53" using a' b' by simp
  from rnd64_Ints [OF h this] show ?thesis
    by (simp add: mean64_def 0 1 fdiv_def)
qed

lemma pair_stats64:
  "ranked64 (k, [savedRun d a t w s, savedRun d' a' t' w' s'])"
  "setupMean64 (k, [savedRun d a t w s, savedRun d' a' t' w' s']) = mean64 [Fin s, Fin s']"
  "setupBest64 (k, [savedRun d a t w s, savedRun d' a' t' w' s']) = Fin (min s s')"
  by (simp_all add: ranked64_def setupMean64_def setupBest64_def finiteScores64_saved
      Math_min_def min_def)

lemma pair_means:
  "mean64 [Fin 600, Fin 800] = Fin 700" "mean64 [Fin 620, Fin 680] = Fin 650"
  "mean64 [Fin 800, Fin 600] = Fin 700"
  using mean64_pair [of 600 800] mean64_pair [of 620 680] mean64_pair [of 800 600]
  by simp_all

lemma round2_64_examples:
  "round2_64 (Fin 600) = Fin 600" "round2_64 (Fin 650) = Fin 650"
  "round2_64 (Fin 700) = Fin 700"
  by (rule round2_64_Ints; simp)+

lemma pair_labels64:
  "avgLabel64 (k, [savedRun 5 13 3 20 620, savedRun 5 13 3 20 680]) = k @ '' (avg 650.00; n=2)''"
  "avgLabel64 (k, [savedRun 5 12 3 20 600, savedRun 5 12 3 20 800]) = k @ '' (avg 700.00; n=2)''"
  "singleLabel64 (k, [savedRun 5 12 3 20 600, savedRun 5 12 3 20 800]) = k @ '' (best 600.00)''"
  by (simp_all add: avgLabel64_def singleLabel64_def pair_stats64 pair_means round2_64_examples
      finiteScores64_saved toFixed_examples del: toFixed.simps)

lemma rankExample_best64:
  "bestSetupByAvg (summaryRow64 k rankExample)
     = setupKey64 (savedRun 5 13 3 20 620) @ '' (avg 650.00; n=2)''"
  "bestSetupBySingle (summaryRow64 k rankExample)
     = setupKey64 (savedRun 5 12 3 20 600) @ '' (best 600.00)''"
proof -
  define A where "A = (setupKey64 (savedRun 5 12 3 20 600), [savedRun 5 12 3 20 600, savedRun 5 12 3 20 800])"
  define B where "B = (setupKey64 (savedRun 5 13 3 20 620), [savedRun 5 13 3 20 620, savedRun 5 13 3 20 680])"
  have g: "groupBy setupKey64 rankExample = [A] @ B # []" "groupBy setupKey64 rankExample = [] @ A # [B]"
    by (simp_all add: rankExample_groups64 A_def B_def)
  have "firstLowest64 setupMean64 [A] B []"
    by (simp add: firstLowest64_def A_def B_def pair_stats64 pair_means)
  from rankSetups64_avg [OF this]
  show "bestSetupByAvg (summaryRow64 k rankExample)
     = setupKey64 (savedRun 5 13 3 20 620) @ '' (avg 650.00; n=2)''"
    by (simp add: summaryRow64_best g(1)) (simp add: B_def pair_labels64)
  have "firstLowest64 setupBest64 [] A [B]"
    by (simp add: firstLowest64_def A_def B_def pair_stats64)
  from rankSetups64_single [OF this]
  show "bestSetupBySingle (summaryRow64 k rankExample)
     = setupKey64 (savedRun 5 12 3 20 600) @ '' (best 600.00)''"
    by (simp add: summaryRow64_best g(2)) (simp add: A_def pair_labels64)
qed

text \<open>The two setups with the scores \<open>700.1\<close>, \<open>700.2\<close>, \<open>700.3\<close>.\<close>

lemma score_texts:
  "Number64 (JStr ''700.1'') = Fin (6158144724847821 / 2 ^ 43)"
  "Number64 (JStr ''700.2'') = Fin (3079512167075021 / 2 ^ 42)"
  "Number64 (JStr ''700.3'') = Fin (3079951971726131 / 2 ^ 42)"
    apply (simp add: parse_eval, simp add: rnd_eval)
   apply (simp add: parse_eval, simp add: rnd_eval)
  apply (simp add: parse_eval, simp add: rnd_eval)
  done

lemma setupKey64_scored:
  "setupKey64 (scoredRun a s)
     = toFixed (Fin a) 1 @ [CHR 0xB0] @ '' | '' @ toFixed (Fin 3) 2 @ '' turns | ''
         @ toFixed (Fin 20) 0 @ '' winds''"
  by (simp add: setupKey64_def scoredRun_def Number64_js_or del: toFixed.simps)

lemma setupKey64_scored_neq: "setupKey64 (scoredRun 12 s) \<noteq> setupKey64 (scoredRun 13 s')"
proof -
  have "toFixed (Fin 12) 1 = ''12.0''" "toFixed (Fin 13) 1 = ''13.0''"
    by (simp_all add: digits_eval)
  then show ?thesis
    by (simp add: setupKey64_scored del: toFixed.simps)
qed

lemma orderExample_groups:
  "groupBy setupKey64 orderExample =
     [(setupKey64 (scoredRun 12 ''700.1''),
         [scoredRun 12 ''700.1'', scoredRun 12 ''700.2'', scoredRun 12 ''700.3'']),
      (setupKey64 (scoredRun 13 ''700.3''),
         [scoredRun 13 ''700.3'', scoredRun 13 ''700.2'', scoredRun 13 ''700.1''])]"
proof -
  have e: "setupKey64 (scoredRun a s) = setupKey64 (scoredRun a s')" for a s s'
    by (simp only: setupKey64_scored)
  have n: "setupKey64 (scoredRun 13 ''700.3'') \<noteq> setupKey64 (scoredRun 12 ''700.1'')"
    using setupKey64_scored_neq [of "''700.1''" "''700.3''"] by simp
  show ?thesis
    unfolding orderExample_def groupBy_def
    using n
    by (simp add: e [of 12 "''700.2''" "''700.1''"] e [of 12 "''700.3''" "''700.1''"]
        e [of 13 "''700.2''" "''700.3''"] e [of 13 "''700.1''" "''700.3''"] del: toFixed.simps)
qed

lemma scoredRun_score: "Number64 (score (scoredRun a s)) = Number64 (JStr s)"
  by (simp add: scoredRun_def)

lemma orderExample_scores:
  "finiteScores64 [scoredRun 12 ''700.1'', scoredRun 12 ''700.2'', scoredRun 12 ''700.3'']
     = [Fin (6158144724847821 / 2 ^ 43), Fin (3079512167075021 / 2 ^ 42),
        Fin (3079951971726131 / 2 ^ 42)]"
  "finiteScores64 [scoredRun 13 ''700.3'', scoredRun 13 ''700.2'', scoredRun 13 ''700.1'']
     = [Fin (3079951971726131 / 2 ^ 42), Fin (3079512167075021 / 2 ^ 42),
        Fin (6158144724847821 / 2 ^ 43)]"
  by (simp_all add: finiteScores64_def scoredRun_score score_texts del: Number64.simps)

lemma orderExample_means:
  "mean64 [Fin (6158144724847821 / 2 ^ 43), Fin (3079512167075021 / 2 ^ 42),
        Fin (3079951971726131 / 2 ^ 42)] = Fin (6159024334150043 / 2 ^ 43)"
  "mean64 [Fin (3079951971726131 / 2 ^ 42), Fin (3079512167075021 / 2 ^ 42),
        Fin (6158144724847821 / 2 ^ 43)] = Fin (6159024334150041 / 2 ^ 43)"
   apply (simp add: mean64_def, simp add: rnd_eval)
  apply (simp add: mean64_def, simp add: rnd_eval)
  done

lemma orderExample_label:
  "toFixed (round2_64 (Fin (6159024334150041 / 2 ^ 43))) 2 = ''700.20''"
proof -
  have "round2_64 (Fin (6159024334150041 / 2 ^ 43)) = Fin (3079512167075021 / 2 ^ 42)"
    by (simp add: round2_64_def, simp add: rnd_eval)
  moreover have "toFixed (Fin (3079512167075021 / 2 ^ 42)) 2 = ''700.20''"
    by (simp add: digits_eval)
  ultimately show ?thesis by (simp only:)
qed

lemma digitsOf_three: "digitsOf (Suc (Suc (Suc 0))) = ''3''"
proof -
  have "Suc (Suc (Suc 0)) = 3" by simp
  moreover have "digitsOf 3 = ''3''" by (simp add: digits_eval)
  ultimately show ?thesis by (simp only:)
qed

text \<open>
  Claim C8 as stated fails where two setups have the same mean. A track group holds a
  first setup with the scores \<open>700.1\<close>, \<open>700.2\<close>, \<open>700.3\<close> and a second one with the
  same scores in reverse order: the exact means of the stored scores are equal, so the
  first setup should be reported. Added up from left to right in binary64 the first
  mean comes out as \<open>700.2000000000002\<close> and the second as \<open>700.1999999999999\<close>, and
  "best by average" reports the second setup.
\<close>

theorem C8_equal_means_counterexample:
  "groupBy setupKey64 orderExample =
     [(setupKey64 (scoredRun 12 ''700.1''),
         [scoredRun 12 ''700.1'', scoredRun 12 ''700.2'', scoredRun 12 ''700.3'']),
      (setupKey64 (scoredRun 13 ''700.3''),
         [scoredRun 13 ''700.3'', scoredRun 13 ''700.2'', scoredRun 13 ''700.1''])]
   \<and> exactMean (setupKey64 (scoredRun 12 ''700.1''),
         [scoredRun 12 ''700.1'', scoredRun 12 ''700.2'', scoredRun 12 ''700.3''])
     = exactMean (setupKey64 (scoredRun 13 ''700.3''),
         [scoredRun 13 ''700.3'', scoredRun 13 ''700.2'', scoredRun 13 ''700.1''])
   \<and> setupMean64 (setupKey64 (scoredRun 12 ''700.1''),
         [scoredRun 12 ''700.1'', scoredRun 12 ''700.2'', scoredRun 12 ''700.3''])
     = Fin (6159024334150043 / 2 ^ 43)
   \<and> setupMean64 (setupKey64 (scoredRun 13 ''700.3''),
         [scoredRun 13 ''700.3'', scoredRun 13 ''700.2'', scoredRun 13 ''700.1''])
     = Fin (6159024334150041 / 2 ^ 43)
   \<and> bestSetupByAvg (summaryRow64 ''5.00'' orderExample)
     = setupKey64 (scoredRun 13 ''700.3'') @ '' (avg 700.20; n=3)''"
proof -
  define A where "A = (setupKey64 (scoredRun 12 ''700.1''),
         [scoredRun 12 ''700.1'', scoredRun 12 ''700.2'', scoredRun 12 ''700.3''])"
  define B where "B = (setupKey64 (scoredRun 13 ''700.3''),
         [scoredRun 13 ''700.3'', scoredRun 13 ''700.2'', scoredRun 13 ''700.1''])"
  have g: "groupBy setupKey64 orderExample = [A] @ B # []"
    by (simp add: orderExample_groups A_def B_def)
  have r: "ranked64 A" "ranked64 B"
    by (simp_all add: ranked64_def A_def B_def orderExample_scores)
  have m: "setupMean64 A = Fin (6159024334150043 / 2 ^ 43)"
    "setupMean64 B = Fin (6159024334150041 / 2 ^ 43)"
    by (simp_all only: setupMean64_def A_def B_def snd_conv orderExample_scores orderExample_means)
  have x: "exactMean A = exactMean B"
    by (simp add: exactMean_def A_def B_def orderExample_scores)
  have "firstLowest64 setupMean64 [A] B []"
    by (simp add: firstLowest64_def r m)
  from rankSetups64_avg [OF this]
  have "bestSetupByAvg (summaryRow64 ''5.00'' orderExample) = avgLabel64 B"
    by (simp add: summaryRow64_best g)
  also have "avgLabel64 B = fst B @ '' (avg 700.20; n=3)''"
    unfolding avgLabel64_def m orderExample_label
    by (simp add: B_def orderExample_scores digitsOf_three)
  finally have b: "bestSetupByAvg (summaryRow64 ''5.00'' orderExample)
      = setupKey64 (scoredRun 13 ''700.3'') @ '' (avg 700.20; n=3)''"
    by (simp add: B_def)
  from orderExample_groups x m b show ?thesis
    unfolding A_def B_def by (intro conjI)
qed

text \<open>
  Claim C8, amended. In a track group with runs \<open>rs\<close> the setups are the entries of
  \<open>groupBy setupKey64 rs\<close>, in the order of their first runs, each with the runs of that
  setup. "Best by average" is the label (key, mean rounded to two decimals, number of
  finite scores) of the first entry with the lowest computed mean, where the mean of a
  setup is computed in binary64: its finite scores added up from left to right and the
  sum divided by their number. "Best by single" is the label (key, score) of the first
  entry with the lowest minimal score. Such entries exist as soon as one setup has a
  finite score (for the mean: one whose sum has not overflowed), and the reports are
  empty otherwise. The computed mean is never \<open>NaN\<close>; for at most a thousand scores up to
  \<open>10\<^sup>6\<close> it is the exact mean up to \<open>10\<^sup>-\<^sup>6\<close>. In the example the second setup (mean \<open>650\<close>
  against \<open>700\<close>) is best by average and the first (best \<open>600\<close> against \<open>620\<close>) best by
  single.
\<close>

theorem C8_setup_ranking64:
  "(\<forall>pre e post. groupBy setupKey64 rs = pre @ e # post \<and> firstLowest64 setupMean64 pre e post
       \<longrightarrow> bestSetupByAvg (summaryRow64 k rs) = avgLabel64 e)
   \<and> (\<forall>pre e post. groupBy setupKey64 rs = pre @ e # post \<and> firstLowest64 setupBest64 pre e post
       \<longrightarrow> bestSetupBySingle (summaryRow64 k rs) = singleLabel64 e)
   \<and> ((\<exists>e \<in> set (groupBy setupKey64 rs). ranked64 e \<and> nlt (setupMean64 e) PInf)
       \<longrightarrow> (\<exists>pre e post. groupBy setupKey64 rs = pre @ e # post
              \<and> firstLowest64 setupMean64 pre e post))
   \<and> ((\<exists>e \<in> set (groupBy setupKey64 rs). ranked64 e)
       \<longrightarrow> (\<exists>pre e post. groupBy setupKey64 rs = pre @ e # post
              \<and> firstLowest64 setupBest64 pre e post))
   \<and> ((\<forall>e \<in> set (groupBy setupKey64 rs). ranked64 e \<longrightarrow> \<not> nlt (setupMean64 e) PInf)
       \<longrightarrow> bestSetupByAvg (summaryRow64 k rs) = [])
   \<and> ((\<forall>e \<in> set (groupBy setupKey64 rs). \<not> ranked64 e)
       \<longrightarrow> bestSetupBySingle (summaryRow64 k rs) = [])
   \<and> (\<forall>e. setupMean64 e
            = fdiv (foldl fadd (Fin 0) (finiteScores64 (snd e)))
                (Fin (of_nat (length (finiteScores64 (snd e))))))
   \<and> (\<forall>e. ranked64 e
       \<longrightarrow> setupMean64 e \<noteq> NaN
         \<and> setupBest64 e = Fin (Min (fval ` set (finiteScores64 (snd e)))))
   \<and> (\<forall>e. ranked64 e \<and> (\<forall>s \<in> set (finiteScores64 (snd e)). \<bar>fval s\<bar> \<le> 10 ^ 6)
          \<and> length (finiteScores64 (snd e)) \<le> 1000
       \<longrightarrow> (\<exists>m. setupMean64 e = Fin m \<and> \<bar>m - exactMean e\<bar> \<le> 1 / 10 ^ 6))
   \<and> map fst (groupBy setupKey64 rs) = rev (remdups (rev (map setupKey64 rs)))
   \<and> (\<forall>sk srs. (sk, srs) \<in> set (groupBy setupKey64 rs)
       \<longrightarrow> srs = filter (\<lambda>r. setupKey64 r = sk) rs)
   \<and> bestSetupByAvg (summaryRow64 k rankExample)
       = setupKey64 (savedRun 5 13 3 20 620) @ '' (avg 650.00; n=2)''
   \<and> bestSetupBySingle (summaryRow64 k rankExample)
       = setupKey64 (savedRun 5 12 3 20 600) @ '' (best 600.00)''"
proof (intro conjI allI impI)
  fix pre e post
  assume "groupBy setupKey64 rs = pre @ e # post \<and> firstLowest64 setupMean64 pre e post"
  then show "bestSetupByAvg (summaryRow64 k rs) = avgLabel64 e"
    by (simp add: summaryRow64_best rankSetups64_avg)
next
  fix pre e post
  assume "groupBy setupKey64 rs = pre @ e # post \<and> firstLowest64 setupBest64 pre e post"
  then show "bestSetupBySingle (summaryRow64 k rs) = singleLabel64 e"
    by (simp add: summaryRow64_best rankSetups64_single)
next
  assume "\<exists>e \<in> set (groupBy setupKey64 rs). ranked64 e \<and> nlt (setupMean64 e) PInf"
  then show "\<exists>pre e post. groupBy setupKey64 rs = pre @ e # post
      \<and> firstLowest64 setupMean64 pre e post"
    by (rule firstLowest64_exists [rotated]) (rule ranked64_mean)
next
  assume "\<exists>e \<in> set (groupBy setupKey64 rs). ranked64 e"
  then have "\<exists>e \<in> set (groupBy setupKey64 rs). ranked64 e \<and> nlt (setupBest64 e) PInf"
    using ranked64_best by auto
  then show "\<exists>pre e post. groupBy setupKey64 rs = pre @ e # post
      \<and> firstLowest64 setupBest64 pre e post"
    by (rule firstLowest64_exists [rotated]) (simp add: ranked64_best)
next
  assume "\<forall>e \<in> set (groupBy setupKey64 rs). ranked64 e \<longrightarrow> \<not> nlt (setupMean64 e) PInf"
  then show "bestSetupByAvg (summaryRow64 k rs) = []"
    by (simp add: summaryRow64_best rankSetups64_none)
next
  assume "\<forall>e \<in> set (groupBy setupKey64 rs). \<not> ranked64 e"
  then show "bestSetupBySingle (summaryRow64 k rs) = []"
    by (simp add: summaryRow64_best rankSetups64_none)
next
  fix e
  show "setupMean64 e
      = fdiv (foldl fadd (Fin 0) (finiteScores64 (snd e)))
          (Fin (of_nat (length (finiteScores64 (snd e)))))"
    by (simp add: setupMean64_def mean64_def)
next
  fix e assume "ranked64 e"
  then show "setupMean64 e \<noteq> NaN"
    "setupBest64 e = Fin (Min (fval ` set (finiteScores64 (snd e))))"
    by (rule ranked64_mean, rule ranked64_best)
next
  fix e
  assume "ranked64 e \<and> (\<forall>s \<in> set (finiteScores64 (snd e)). \<bar>fval s\<bar> \<le> 10 ^ 6)
          \<and> length (finiteScores64 (snd e)) \<le> 1000"
  then show "\<exists>m. setupMean64 e = Fin m \<and> \<bar>m - exactMean e\<bar> \<le> 1 / 10 ^ 6"
    by (intro setupMean64_near) simp_all
next
  show "map fst (groupBy setupKey64 rs) = rev (remdups (rev (map setupKey64 rs)))"
    by (rule groupBy_order)
next
  fix sk srs assume "(sk, srs) \<in> set (groupBy setupKey64 rs)"
  then show "srs = filter (\<lambda>r. setupKey64 r = sk) rs"
    using groupBy_entry by blast
next
  show "bestSetupByAvg (summaryRow64 k rankExample)
       = setupKey64 (savedRun 5 13 3 20 620) @ '' (avg 650.00; n=2)''"
    by (rule rankExample_best64)
next
  show "bestSetupBySingle (summaryRow64 k rankExample)
       = setupKey64 (savedRun 5 12 3 20 600) @ '' (best 600.00)''"
    by (rule rankExample_best64)
qed

text \<open>
  The theorem on a tie: two setups with the same computed mean \<open>700\<close> and the same best
  score \<open>600\<close>. The first one is reported under both headings.
\<close>

theorem C8_setup_ranking64_witness:
  "bestSetupByAvg (summaryRow64 ''5.00'' tieExample)
     = setupKey64 (savedRun 5 12 3 20 600) @ '' (avg 700.00; n=2)''
   \<and> bestSetupBySingle (summaryRow64 ''5.00'' tieExample)
     = setupKey64 (savedRun 5 12 3 20 600) @ '' (best 600.00)''"
proof -
  define A where "A = (setupKey64 (savedRun 5 12 3 20 600), [savedRun 5 12 3 20 600, savedRun 5 12 3 20 800])"
  define B where "B = (setupKey64 (savedRun 5 13 3 20 620), [savedRun 5 13 3 20 800, savedRun 5 13 3 20 600])"
  have g: "groupBy setupKey64 tieExample = [] @ A # [B]"
    by (simp add: tieExample_groups64 A_def B_def)
  have m: "firstLowest64 setupMean64 [] A [B]"
    by (simp add: firstLowest64_def A_def B_def pair_stats64 pair_means)
  have s: "firstLowest64 setupBest64 [] A [B]"
    by (simp add: firstLowest64_def A_def B_def pair_stats64)
  have la: "avgLabel64 A = setupKey64 (savedRun 5 12 3 20 600) @ '' (avg 700.00; n=2)''"
    by (simp add: A_def pair_labels64)
  have ls: "singleLabel64 A = setupKey64 (savedRun 5 12 3 20 600) @ '' (best 600.00)''"
    by (simp add: A_def pair_labels64)
  from C8_setup_ranking64 [of tieExample "''5.00''"] g m
  have "bestSetupByAvg (summaryRow64 ''5.00'' tieExample) = avgLabel64 A"
    by blast
  moreover from C8_setup_ranking64 [of tieExample "''5.00''"] g s
  have "bestSetupBySingle (summaryRow64 ''5.00'' tieExample) = singleLabel64 A"
    by blast
  ultimately show ?thesis
    by (simp only: la ls simp_thms)
qed

end
